theory Spec2Isabelle
  imports Main "HOL-Library.Sublist"
begin

section \<open>Python text: characters, lines, universal newlines\<close>

text \<open>
  A Python \<open>str\<close> is modelled as a \<open>string\<close>, each \<open>char\<close> standing for one code point
  below 256. The scripts are run on a POSIX system: writing a text file leaves the
  characters as they are, reading one translates every \<open>\r\n\<close> and every lone \<open>\r\<close>
  to \<open>\n\<close> (Python's universal newlines).
\<close>

abbreviation LF :: char where "LF \<equiv> CHR 0x0A"
abbreviation CR :: char where "CR \<equiv> CHR 0x0D"
abbreviation BSL :: char where "BSL \<equiv> CHR 0x5C"

text \<open>\<open>str.split('\n')\<close>: the pieces between line feeds; never the empty list.\<close>

fun split_lines :: "string \<Rightarrow> string list" where
  "split_lines [] = [[]]"
| "split_lines (c # cs) =
     (if c = LF then [] # split_lines cs
      else (case split_lines cs of l # ls \<Rightarrow> (c # l) # ls | [] \<Rightarrow> [[c]]))"

text \<open>\<open>'\n'.join(lines)\<close>.\<close>

fun join_lines :: "string list \<Rightarrow> string" where
  "join_lines [] = []"
| "join_lines [l] = l"
| "join_lines (l # m # ls) = l @ LF # join_lines (m # ls)"

text \<open>\<open>s.startswith(p)\<close>.\<close>

definition startswith :: "string \<Rightarrow> string \<Rightarrow> bool" where
  "startswith s p \<longleftrightarrow> take (length p) s = p"

section \<open>The pattern \<open>^KEY=.*\<close> in multi-line mode\<close>

text \<open>
  \<open>re.compile(f"^{key}=.*", re.MULTILINE)\<close>: \<open>^\<close> matches at the start of the text and
  after every line feed, \<open>.*\<close> runs to the end of the line. A match is therefore a whole
  line that begins with \<open>KEY=\<close>. The key is pasted into the pattern unescaped; it stands
  for itself when it consists of letters, digits and underscores, which is the case of
  every key the scripts use (\<open>env_key\<close>).
\<close>

definition ascii_lowercase :: string where
  "ascii_lowercase = ''abcdefghijklmnopqrstuvwxyz''"

definition ascii_uppercase :: string where
  "ascii_uppercase = ''ABCDEFGHIJKLMNOPQRSTUVWXYZ''"

definition ascii_letters :: string where
  "ascii_letters = ascii_lowercase @ ascii_uppercase"

definition digits :: string where
  "digits = ''0123456789''"

definition word_char :: "char \<Rightarrow> bool" where
  "word_char c \<longleftrightarrow> c \<in> set (ascii_letters @ digits @ ''_'')"

definition env_key :: "string \<Rightarrow> bool" where
  "env_key k \<longleftrightarrow> list_all word_char k"

definition key_line :: "string \<Rightarrow> string \<Rightarrow> bool" where
  "key_line key l \<longleftrightarrow> startswith l (key @ ''='')"

text \<open>\<open>pattern.search(env_content)\<close>, as a truth value.\<close>

definition pattern_search :: "string \<Rightarrow> string \<Rightarrow> bool" where
  "pattern_search key text \<longleftrightarrow> list_ex (key_line key) (split_lines text)"

subsection \<open>The replacement template of \<open>pattern.sub\<close>\<close>

text \<open>
  \<open>pattern.sub(repl, text)\<close> reads \<open>repl\<close> as a template (CPython 3.12, \<open>re._parser.parse_template\<close>,
  for a pattern without groups): a backslash starts an escape. \<open>\g<0>\<close> (any number of
  zeros) stands for the matched text; \<open>\0\<close>, \<open>\0o\<close>, \<open>\0oo\<close> and \<open>\ooo\<close> are octal character
  codes; \<open>\a \b \f \n \r \t \v \\\<close> are the usual characters; a backslash before any
  other ASCII letter, a reference to a group other than 0, and a backslash at the end are
  errors (\<open>re.error\<close> or \<open>IndexError\<close>, here one value); a backslash before any other
  character stays, with that character.
\<close>

datatype py_exn = TemplateError | AttributeError | TypeError

datatype tpl_item = Lit char | Whole

definition cons_ok :: "'a \<Rightarrow> py_exn + 'a list \<Rightarrow> py_exn + 'a list" where
  "cons_ok x r = (case r of Inl e \<Rightarrow> Inl e | Inr xs \<Rightarrow> Inr (x # xs))"

definition octdigit :: "char \<Rightarrow> bool" where
  "octdigit c \<longleftrightarrow> c \<in> set ''01234567''"

definition digit :: "char \<Rightarrow> bool" where
  "digit c \<longleftrightarrow> c \<in> set digits"

definition ascii_letter :: "char \<Rightarrow> bool" where
  "ascii_letter c \<longleftrightarrow> c \<in> set ascii_letters"

definition octval :: "char \<Rightarrow> nat" where
  "octval c = of_char c - 48"

definition escapes :: "char \<rightharpoonup> char" where
  "escapes = map_of
     [(CHR ''a'', CHR 0x07), (CHR ''b'', CHR 0x08), (CHR ''f'', CHR 0x0C), (CHR ''n'', LF),
      (CHR ''r'', CR), (CHR ''t'', CHR 0x09), (CHR ''v'', CHR 0x0B), (BSL, BSL)]"

function parse_template :: "string \<Rightarrow> py_exn + tpl_item list" where
  "parse_template [] = Inr []"
| "parse_template (c # cs) =
     (if c \<noteq> BSL then cons_ok (Lit c) (parse_template cs)
      else case cs of
        [] \<Rightarrow> Inl TemplateError
      | d # ds \<Rightarrow>
          if d = CHR ''g'' then
            (case ds of
               [] \<Rightarrow> Inl TemplateError
             | a # as \<Rightarrow>
                 if a \<noteq> CHR ''<'' then Inl TemplateError
                 else if dropWhile (\<lambda>x. x \<noteq> CHR ''>'') as = [] then Inl TemplateError
                 else if takeWhile (\<lambda>x. x \<noteq> CHR ''>'') as = [] then Inl TemplateError
                 else if list_all (\<lambda>x. x = CHR ''0'') (takeWhile (\<lambda>x. x \<noteq> CHR ''>'') as)
                 then cons_ok Whole (parse_template (tl (dropWhile (\<lambda>x. x \<noteq> CHR ''>'') as)))
                 else Inl TemplateError)
          else if d = CHR ''0'' then
            (case ds of
               o1 # o2 # rest \<Rightarrow>
                 if octdigit o1 \<and> octdigit o2
                 then cons_ok (Lit (char_of ((octval o1 * 8 + octval o2) mod 256))) (parse_template rest)
                 else if octdigit o1
                 then cons_ok (Lit (char_of (octval o1))) (parse_template (o2 # rest))
                 else cons_ok (Lit (CHR 0x00)) (parse_template ds)
             | [o1] \<Rightarrow>
                 if octdigit o1 then Inr [Lit (char_of (octval o1))]
                 else cons_ok (Lit (CHR 0x00)) (parse_template ds)
             | [] \<Rightarrow> Inr [Lit (CHR 0x00)])
          else if digit d then
            (case ds of
               o1 # o2 # rest \<Rightarrow>
                 if octdigit d \<and> octdigit o1 \<and> octdigit o2
                 then (if octval d * 64 + octval o1 * 8 + octval o2 > 255 then Inl TemplateError
                       else cons_ok (Lit (char_of (octval d * 64 + octval o1 * 8 + octval o2)))
                              (parse_template rest))
                 else Inl TemplateError
             | _ \<Rightarrow> Inl TemplateError)
          else (case escapes d of
                  Some e \<Rightarrow> cons_ok (Lit e) (parse_template ds)
                | None \<Rightarrow>
                    if ascii_letter d then Inl TemplateError
                    else cons_ok (Lit BSL) (cons_ok (Lit d) (parse_template ds))))"
  by pat_completeness auto
termination
proof (relation "measure length", goal_cases)
  case 1
  show ?case by simp
next
  case (2 c cs)
  then show ?case by simp
next
  case (3 c cs d ds a as)
  have "length (tl (dropWhile (\<lambda>x. x \<noteq> CHR ''>'') as)) \<le> length as"
    using length_dropWhile_le [of "\<lambda>x. x \<noteq> CHR ''>''" as] by simp
  then show ?case using 3 by simp
qed simp_all

text \<open>The text a match \<open>m\<close> is replaced by.\<close>

definition expand :: "tpl_item list \<Rightarrow> string \<Rightarrow> string" where
  "expand tpl m = concat (map (\<lambda>it. case it of Lit c \<Rightarrow> [c] | Whole \<Rightarrow> m) tpl)"

text \<open>\<open>pattern.sub(repl, env_content)\<close>: every line that begins with \<open>KEY=\<close> is replaced.\<close>

definition pattern_sub :: "string \<Rightarrow> string \<Rightarrow> string \<Rightarrow> py_exn + string" where
  "pattern_sub key repl text =
     (case parse_template repl of
        Inl e \<Rightarrow> Inl e
      | Inr tpl \<Rightarrow>
          Inr (join_lines (map (\<lambda>l. if key_line key l then expand tpl l else l) (split_lines text))))"

section \<open>Environment-file synchronization\<close>

text \<open>
  The body of the loop of \<open>update_env_file\<close> (setup.py and create-project.py):
  (\<open>env_line\<close> is the f-string \<open>f"{key}={value}"\<close>)
  \<^verbatim>\<open>
    pattern = re.compile(f"^{key}=.*", re.MULTILINE)
    if pattern.search(env_content):
        env_content = pattern.sub(f"{key}={value}", env_content)
    else:
        env_content += f"\n{key}={value}"
  \<close>
\<close>

definition env_line :: "string \<Rightarrow> string \<Rightarrow> string" where
  "env_line key value = key @ ''='' @ value"

definition sync_key :: "string \<Rightarrow> string \<Rightarrow> string \<Rightarrow> py_exn + string" where
  "sync_key key value env_content =
     (if pattern_search key env_content
      then pattern_sub key (env_line key value) env_content
      else Inr (env_content @ LF # env_line key value))"

text \<open>
  \<open>for key, value in env_vars.items()\<close>: the dictionary is the list of its items in
  insertion order (the keys of a dictionary are distinct). An exception leaves the loop.
\<close>

fun sync_vars :: "(string \<times> string) list \<Rightarrow> string \<Rightarrow> py_exn + string" where
  "sync_vars [] env_content = Inr env_content"
| "sync_vars ((key, value) # kvs) env_content =
     (case sync_key key value env_content of
        Inl e \<Rightarrow> Inl e
      | Inr env_content' \<Rightarrow> sync_vars kvs env_content')"

text \<open>
  Values the line format can hold as they are: no line feed (a value is the rest of one
  line) and no backslash (the replacement template would read it as an escape).
\<close>

definition env_value :: "string \<Rightarrow> bool" where
  "env_value v \<longleftrightarrow> LF \<notin> set v \<and> BSL \<notin> set v"

text \<open>The number of lines of a text that begin with \<open>KEY=\<close>.\<close>

definition key_count :: "string \<Rightarrow> string \<Rightarrow> nat" where
  "key_count key text = length (filter (key_line key) (split_lines text))"

text \<open>The loop body and the loop, seen on the list of lines (used in the proofs).\<close>

definition sync_lines :: "string \<Rightarrow> string \<Rightarrow> string list \<Rightarrow> string list" where
  "sync_lines k v ls =
     (if list_ex (key_line k) ls
      then map (\<lambda>l. if key_line k l then env_line k v else l) ls
      else ls @ [env_line k v])"

fun sync_vars_lines :: "(string \<times> string) list \<Rightarrow> string list \<Rightarrow> string list" where
  "sync_vars_lines [] ls = ls"
| "sync_vars_lines ((k, v) # kvs) ls = sync_vars_lines kvs (sync_lines k v ls)"

definition settled :: "string \<Rightarrow> string \<Rightarrow> string list \<Rightarrow> bool" where
  "settled k v ls \<longleftrightarrow>
     list_ex (key_line k) ls \<and> (\<forall>l\<in>set ls. key_line k l \<longrightarrow> l = env_line k v)"

text \<open>
  The frame of a pass, as a relation between the lines before and after: walking the
  original lines, a line that no key matches (\<open>\<not> P l\<close>) is kept as it is, a matching line
  is replaced by the lines \<open>r\<close> of its replacement, and after the last original line
  anything may have been appended.
\<close>

inductive framed :: "(string \<Rightarrow> bool) \<Rightarrow> string list \<Rightarrow> string list \<Rightarrow> bool"
  for P :: "string \<Rightarrow> bool" where
  appended: "framed P [] app"
| kept: "\<not> P l \<Longrightarrow> framed P ls ls' \<Longrightarrow> framed P (l # ls) (l # ls')"
| replaced: "P l \<Longrightarrow> framed P ls ls' \<Longrightarrow> framed P (l # ls) (r @ ls')"

definition any_key_line :: "(string \<times> string) list \<Rightarrow> string \<Rightarrow> bool" where
  "any_key_line kvs l \<longleftrightarrow> list_ex (\<lambda>kv. key_line (fst kv) l) kvs"

section \<open>The state of the machine and the outcome of a call\<close>

text \<open>
  The scripts act on the files of the working directory, run external commands, sleep
  and draw random numbers. The state records the files (path to content), the number of
  commands run so far, the sleeps made so far (seconds, oldest first) and the number of
  random draws made so far. A call returns, or leaves the process through \<open>sys.exit\<close>,
  or raises an exception nobody catches.
\<close>

record sys_state =
  files :: "string \<Rightarrow> string option"
  ncalls :: nat
  slept :: "nat list"
  ndraws :: nat

datatype 'a outcome = Return 'a | Exit int | Raise py_exn

text \<open>\<open>open(path).read()\<close> in text mode: universal newlines.\<close>

fun universal_newlines :: "string \<Rightarrow> string" where
  "universal_newlines [] = []"
| "universal_newlines [c] = (if c = CR then [LF] else [c])"
| "universal_newlines (c # d # cs) =
     (if c = CR then (if d = LF then LF # universal_newlines cs
                      else LF # universal_newlines (d # cs))
      else c # universal_newlines (d # cs))"

definition read_file :: "sys_state \<Rightarrow> string \<Rightarrow> string" where
  "read_file st path = (case files st path of None \<Rightarrow> [] | Some content \<Rightarrow> universal_newlines content)"

definition write_file :: "string \<Rightarrow> string \<Rightarrow> sys_state \<Rightarrow> sys_state" where
  "write_file path content st = st\<lparr>files := (files st)(path \<mapsto> content)\<rparr>"

definition path_exists :: "sys_state \<Rightarrow> string \<Rightarrow> bool" where
  "path_exists st path \<longleftrightarrow> files st path \<noteq> None"

text \<open>
  \<open>update_env_file\<close>, first part (the same in setup.py and create-project.py): when
  \<open>.env\<close> does not exist it is copied from \<open>.env.example\<close>, else from \<open>.env.template\<close>, else
  created empty. \<open>read_file\<close> is only called on a path that exists.
\<close>

definition ensure_env_file :: "sys_state \<Rightarrow> sys_state" where
  "ensure_env_file st =
     (if \<not> path_exists st ''.env'' then
        (if path_exists st ''.env.example'' then write_file ''.env'' (read_file st ''.env.example'') st
         else if path_exists st ''.env.template'' then write_file ''.env'' (read_file st ''.env.template'') st
         else write_file ''.env'' [] st)
      else st)"

text \<open>The dictionary \<open>env_vars\<close> of setup.py, in insertion order.\<close>

definition env_vars_setup ::
  "string \<Rightarrow> string \<Rightarrow> string \<Rightarrow> string \<Rightarrow> string \<Rightarrow> (string \<times> string) list" where
  "env_vars_setup project_url anon_key service_key db_password org_id =
     [(''NEXT_PUBLIC_SUPABASE_URL'', project_url),
      (''NEXT_PUBLIC_SUPABASE_ANON_KEY'', anon_key),
      (''SUPABASE_URL'', project_url),
      (''SUPABASE_ANON_KEY'', anon_key),
      (''SUPABASE_SERVICE_KEY'', service_key),
      (''POSTGRES_PASSWORD'', db_password),
      (''SUPABASE_ORG_ID'', org_id)]"

text \<open>
  \<open>update_env_file\<close> of setup.py. The file is written after the loop: an exception in
  the loop leaves \<open>.env\<close> as \<open>ensure_env_file\<close> left it.
\<close>

definition update_env_file_setup ::
  "string \<Rightarrow> string \<Rightarrow> string \<Rightarrow> string \<Rightarrow> string \<Rightarrow> string \<Rightarrow> sys_state \<Rightarrow> unit outcome \<times> sys_state" where
  "update_env_file_setup project_id project_url anon_key service_key db_password org_id st =
     (let st1 = ensure_env_file st;
          env_content = read_file st1 ''.env''
      in case sync_vars (env_vars_setup project_url anon_key service_key db_password org_id) env_content of
           Inl e \<Rightarrow> (Raise e, st1)
         | Inr env_content' \<Rightarrow> (Return (), write_file ''.env'' env_content' st1))"

text \<open>
  \<open>update_env_file\<close> of create-project.py: the dictionary, then the mirrored public
  variables, the URL ones when \<open>project_url\<close> is not empty, the key ones when \<open>anon_key\<close>
  is not empty. Each of the three iterations has the body of \<open>sync_key\<close>.
\<close>

definition env_vars_create ::
  "string \<Rightarrow> string \<Rightarrow> string \<Rightarrow> string \<Rightarrow> string \<Rightarrow> string \<Rightarrow> (string \<times> string) list" where
  "env_vars_create project_id project_url anon_key service_key db_password org_id =
     [(''SUPABASE_URL'', project_url),
      (''SUPABASE_ANON_KEY'', anon_key),
      (''SUPABASE_SERVICE_ROLE_KEY'', service_key),
      (''SUPABASE_DB_PASSWORD'', db_password),
      (''SUPABASE_ORG_ID'', org_id),
      (''SUPABASE_PROJECT_ID'', project_id)]"

definition public_vars_create :: "string \<Rightarrow> string \<Rightarrow> (string \<times> string) list" where
  "public_vars_create project_url anon_key =
     (if project_url \<noteq> [] then
        [(''NEXT_PUBLIC_SUPABASE_URL'', project_url), (''EXPO_PUBLIC_SUPABASE_URL'', project_url)]
      else []) @
     (if anon_key \<noteq> [] then
        [(''NEXT_PUBLIC_SUPABASE_ANON_KEY'', anon_key), (''EXPO_PUBLIC_SUPABASE_ANON_KEY'', anon_key)]
      else [])"

definition update_env_file_create ::
  "string \<Rightarrow> string \<Rightarrow> string \<Rightarrow> string \<Rightarrow> string \<Rightarrow> string \<Rightarrow> sys_state \<Rightarrow> unit outcome \<times> sys_state" where
  "update_env_file_create project_id project_url anon_key service_key db_password org_id st =
     (let st1 = ensure_env_file st;
          env_content = read_file st1 ''.env''
      in case sync_vars (env_vars_create project_id project_url anon_key service_key db_password org_id)
                env_content of
           Inl e \<Rightarrow> (Raise e, st1)
         | Inr c1 \<Rightarrow>
             (case sync_vars (public_vars_create project_url anon_key) c1 of
                Inl e \<Rightarrow> (Raise e, st1)
              | Inr c2 \<Rightarrow> (Return (), write_file ''.env'' c2 st1)))"

section \<open>Reading the environment file\<close>

text \<open>
  \<open>read_env_file\<close> of link.py, migrate.py and link-and-migrate.py (the same text in the
  three scripts):
  \<^verbatim>\<open>
    for line in f:
        line = line.strip()
        if line and not line.startswith("#") and "=" in line:
            key, value = line.split("=", 1)
            env_vars[key] = value
  \<close>
  \<open>for line in f\<close> yields the lines with their line feed; \<open>str.strip\<close> removes the
  white space of Python at both ends (the code points below 256 for which
  \<open>str.isspace\<close> holds).
\<close>

fun readlines :: "string \<Rightarrow> string list" where
  "readlines [] = []"
| "readlines (c # cs) =
     (if c = LF then [LF] # readlines cs
      else (case readlines cs of [] \<Rightarrow> [[c]] | l # ls \<Rightarrow> (c # l) # ls))"

definition is_space :: "char \<Rightarrow> bool" where
  "is_space c \<longleftrightarrow>
     c \<in> {CHR 0x09, LF, CHR 0x0B, CHR 0x0C, CR, CHR 0x1C, CHR 0x1D, CHR 0x1E, CHR 0x1F,
          CHR 0x20, CHR 0x85, CHR 0xA0}"

definition strip :: "string \<Rightarrow> string" where
  "strip s = rev (dropWhile is_space (rev (dropWhile is_space s)))"

text \<open>\<open>line.split("=", 1)\<close> on a line that holds an \<open>=\<close>: the parts around the first one.\<close>

definition split_first_eq :: "string \<Rightarrow> string \<times> string" where
  "split_first_eq line =
     (takeWhile (\<lambda>c. c \<noteq> CHR ''='') line, tl (dropWhile (\<lambda>c. c \<noteq> CHR ''='') line))"

text \<open>The entry a raw line contributes, if any.\<close>

definition env_entry :: "string \<Rightarrow> (string \<times> string) option" where
  "env_entry raw =
     (let line = strip raw
      in if line \<noteq> [] \<and> \<not> startswith line ''#'' \<and> CHR ''='' \<in> set line
         then Some (split_first_eq line) else None)"

fun read_env_loop :: "string list \<Rightarrow> (string \<rightharpoonup> string) \<Rightarrow> (string \<rightharpoonup> string)" where
  "read_env_loop [] env_vars = env_vars"
| "read_env_loop (raw # raws) env_vars =
     (case env_entry raw of
        None \<Rightarrow> read_env_loop raws env_vars
      | Some (key, value) \<Rightarrow> read_env_loop raws (env_vars(key \<mapsto> value)))"

definition read_env_file :: "sys_state \<Rightarrow> (string \<rightharpoonup> string) outcome" where
  "read_env_file st =
     (if \<not> path_exists st ''.env'' then Exit 1
      else Return (read_env_loop (readlines (read_file st ''.env'')) Map.empty))"

text \<open>
  The claim in its own words: the entries of the lines in order, the last entry of a key
  giving its value.
\<close>

definition env_entries :: "string \<Rightarrow> (string \<times> string) list" where
  "env_entries text = List.map_filter env_entry (readlines text)"

definition last_entry :: "(string \<times> string) list \<Rightarrow> string \<Rightarrow> string option" where
  "last_entry entries key =
     (case filter (\<lambda>kv. fst kv = key) entries of [] \<Rightarrow> None | e # es \<Rightarrow> Some (snd (last (e # es))))"

section \<open>Password generation\<close>

text \<open>
  \<open>secrets.choice(alphabet)\<close> is \<open>alphabet[randbelow(len(alphabet))]\<close>. The random source
  is a sequence of numbers, \<open>draw i\<close> the \<open>i\<close>-th of the call; the index chosen is that
  number reduced below the length of the alphabet, so every index can come out.
  \<open>range(length)\<close> is empty for a negative length.
\<close>

definition choice :: "nat \<Rightarrow> string \<Rightarrow> char" where
  "choice r alphabet = alphabet ! (r mod length alphabet)"

text \<open>setup.py: \<open>string.ascii_letters + string.digits + "!#$%&()*+,-./:;<=>?@[]^_`{|}~"\<close>.\<close>

definition alphabet_setup :: string where
  "alphabet_setup = ascii_letters @ digits @ ''!#$%&()*+,-./:;<=>?@[]^_`{|}~''"

text \<open>create-project.py: \<open>string.ascii_letters + string.digits + "#%+,-./:=@^_{}"\<close>.\<close>

definition safe_alphabet :: string where
  "safe_alphabet = ascii_letters @ digits @ ''#%+,-./:=@^_{}''"

definition generate_secure_password_setup :: "(nat \<Rightarrow> nat) \<Rightarrow> int \<Rightarrow> string" where
  "generate_secure_password_setup draw len =
     map (\<lambda>i. choice (draw i) alphabet_setup) [0..<nat len]"

definition generate_secure_password_create :: "(nat \<Rightarrow> nat) \<Rightarrow> int \<Rightarrow> string" where
  "generate_secure_password_create draw len =
     map (\<lambda>i. choice (draw i) safe_alphabet) [0..<nat len]"

text \<open>
  The characters the comment of \<open>generate_secure_password\<close> in create-project.py names
  as causing issues in command-line arguments:
  \<^verbatim>\<open>Specifically avoid: !$&()*;<>?[]\`|' and other shell special characters\<close>
\<close>

definition shell_special :: string where
  "shell_special = ''!$&()*;<>?[]'' @ [BSL] @ ''`|'' @ [CHR 0x27]"

text \<open>\<open>string.punctuation\<close> of Python.\<close>

definition punctuation :: string where
  "punctuation = ''!'' @ [CHR 0x22] @ ''#$%&'' @ [CHR 0x27] @ ''()*+,-./:;<=>?@['' @ [BSL] @ '']^_`{|}~''"

section \<open>External commands, JSON values and the patterns of the fallback\<close>

text \<open>
  What the outside gives. \<open>respond n cmd\<close> is the exit code and the standard output of
  the command \<open>cmd\<close> when \<open>n\<close> commands have run before it; \<open>loads\<close> is \<open>json.loads\<close>, \<open>None\<close>
  standing for \<open>JSONDecodeError\<close>; \<open>draws\<close> is the random source.
\<close>

datatype json = JNull | JBool bool | JInt int | JStr string | JArr "json list"
  | JObj "(string \<times> json) list"

record proc_result =
  returncode :: int
  stdout :: "string option"

record world =
  respond :: "nat \<Rightarrow> string list \<Rightarrow> int \<times> string"
  loads :: "string \<Rightarrow> json option"
  draws :: "nat \<Rightarrow> nat"

text \<open>
  \<open>run_command\<close> (the same in every script). With \<open>check\<close>, a non-zero exit raises
  \<open>CalledProcessError\<close>, which is caught and ends in \<open>error\<close>, that is \<open>sys.exit(1)\<close>.
  Without \<open>capture_output\<close> the result has no \<open>stdout\<close>.
\<close>

definition run_command ::
  "world \<Rightarrow> string list \<Rightarrow> bool \<Rightarrow> bool \<Rightarrow> sys_state \<Rightarrow> proc_result outcome \<times> sys_state" where
  "run_command w cmd check capture_output st =
     (let st' = st\<lparr>ncalls := Suc (ncalls st)\<rparr>
      in if check \<and> fst (respond w (ncalls st) cmd) \<noteq> 0 then (Exit 1, st')
         else (Return \<lparr>returncode = fst (respond w (ncalls st) cmd),
                        stdout = (if capture_output then Some (snd (respond w (ncalls st) cmd)) else None)\<rparr>,
               st'))"

text \<open>\<open>time.sleep(seconds)\<close>.\<close>

definition py_sleep :: "nat \<Rightarrow> sys_state \<Rightarrow> sys_state" where
  "py_sleep seconds st = st\<lparr>slept := slept st @ [seconds]\<rparr>"

text \<open>Sequencing: the rest runs when the first part returns.\<close>

definition and_then ::
  "'a outcome \<times> sys_state \<Rightarrow> ('a \<Rightarrow> sys_state \<Rightarrow> 'b outcome \<times> sys_state) \<Rightarrow> 'b outcome \<times> sys_state" where
  "and_then m f =
     (case m of
        (Return x, st) \<Rightarrow> f x st
      | (Exit c, st) \<Rightarrow> (Exit c, st)
      | (Raise e, st) \<Rightarrow> (Raise e, st))"

text \<open>Python on parsed JSON: truth value, iteration, \<open>.get(key)\<close>.\<close>

fun truthy :: "json \<Rightarrow> bool" where
  "truthy JNull = False"
| "truthy (JBool b) = b"
| "truthy (JInt n) = (n \<noteq> 0)"
| "truthy (JStr s) = (s \<noteq> [])"
| "truthy (JArr xs) = (xs \<noteq> [])"
| "truthy (JObj kvs) = (kvs \<noteq> [])"

fun py_iter :: "json \<Rightarrow> py_exn + json list" where
  "py_iter (JArr xs) = Inr xs"
| "py_iter (JObj kvs) = Inr (map (\<lambda>kv. JStr (fst kv)) kvs)"
| "py_iter (JStr s) = Inr (map (\<lambda>c. JStr [c]) s)"
| "py_iter _ = Inl TypeError"

fun py_get :: "json \<Rightarrow> string \<Rightarrow> py_exn + json" where
  "py_get (JObj kvs) key = Inr (case map_of kvs key of None \<Rightarrow> JNull | Some v \<Rightarrow> v)"
| "py_get _ key = Inl AttributeError"

subsection \<open>Regular expressions of the fallback\<close>

text \<open>
  A pattern is a sequence of items: a literal text, a greedy repetition of a character
  class, and a greedy repetition that is the group of the pattern (zero or more, one or
  more). Matching is Python's backtracking: a repetition takes as many characters as it
  can and gives them back one at a time; \<open>re.search\<close> takes the leftmost start.
\<close>

datatype rx_item = RLit string | RStar "char \<Rightarrow> bool" | RGroupStar "char \<Rightarrow> bool"
  | RGroupPlus "char \<Rightarrow> bool"

fun first_some :: "('a \<Rightarrow> 'b option) \<Rightarrow> 'a list \<Rightarrow> 'b option" where
  "first_some f [] = None"
| "first_some f (x # xs) = (case f x of Some y \<Rightarrow> Some y | None \<Rightarrow> first_some f xs)"

fun rx_match :: "rx_item list \<Rightarrow> string \<Rightarrow> string \<Rightarrow> string option" where
  "rx_match [] s grp = Some grp"
| "rx_match (RLit p # rs) s grp =
     (if startswith s p then rx_match rs (drop (length p) s) grp else None)"
| "rx_match (RStar cls # rs) s grp =
     first_some (\<lambda>n. rx_match rs (drop n s) grp) (rev [0..<Suc (length (takeWhile cls s))])"
| "rx_match (RGroupStar cls # rs) s grp =
     first_some (\<lambda>n. rx_match rs (drop n s) (take n s)) (rev [0..<Suc (length (takeWhile cls s))])"
| "rx_match (RGroupPlus cls # rs) s grp =
     first_some (\<lambda>n. rx_match rs (drop n s) (take n s)) (rev [1..<Suc (length (takeWhile cls s))])"

text \<open>\<open>re.search(pattern, s)\<close>, giving \<open>group(1)\<close> of the match.\<close>

definition rx_search :: "rx_item list \<Rightarrow> string \<Rightarrow> string option" where
  "rx_search rx s = first_some (\<lambda>i. rx_match rx (drop i s) []) [0..<Suc (length s)]"

abbreviation DQ :: char where "DQ \<equiv> CHR 0x22"

text \<open>\<^verbatim>\<open>"anon"[^}]*"api_key":"([^"]*)"\<close> and the same for \<open>service_role\<close>.\<close>

definition api_key_rx :: "string \<Rightarrow> rx_item list" where
  "api_key_rx name =
     [RLit (DQ # name @ [DQ]), RStar (\<lambda>c. c \<noteq> CHR ''}''),
      RLit (DQ # ''api_key'' @ [DQ] @ '':'' @ [DQ]), RGroupStar (\<lambda>c. c \<noteq> DQ), RLit [DQ]]"

text \<open>\<^verbatim>\<open>anon:\s*\n\s*([^\n]+)\<close> and the same for \<open>service_role\<close>.\<close>

definition show_key_rx :: "string \<Rightarrow> rx_item list" where
  "show_key_rx name =
     [RLit (name @ '':''), RStar is_space, RLit [LF], RStar is_space, RGroupPlus (\<lambda>c. c \<noteq> LF)]"

section \<open>The retrying operations of setup.py\<close>

text \<open>
  Each operation runs its command in a \<open>for attempt in range(1, n)\<close>; the attempts are
  the list the range stands for. Where the body of an iteration can return a value, its
  model gives \<open>Some\<close> of the value, and \<open>None\<close> when it falls through to the next
  attempt. \<open>None\<close> of Python is \<open>JNull\<close>.
\<close>

definition projects_list_json :: "string list" where
  "projects_list_json = [''npx'', ''supabase'', ''projects'', ''list'', ''-o'', ''json'']"

subsection \<open>\<open>check_project_exists\<close>\<close>

fun project_named :: "string \<Rightarrow> json list \<Rightarrow> py_exn + bool" where
  "project_named project_name [] = Inr False"
| "project_named project_name (project # projects) =
     (case py_get project ''name'' of
        Inl e \<Rightarrow> Inl e
      | Inr name \<Rightarrow> if name = JStr project_name then Inr True
                   else project_named project_name projects)"

definition check_project_exists_try :: "world \<Rightarrow> string \<Rightarrow> string \<Rightarrow> bool option outcome" where
  "check_project_exists_try w project_name out =
     (case loads w out of
        None \<Rightarrow> Return None
      | Some projects \<Rightarrow>
          if \<not> truthy projects then Return (Some False)
          else (case py_iter projects of
                  Inl e \<Rightarrow> Raise e
                | Inr ps \<Rightarrow> (case project_named project_name ps of
                              Inl e \<Rightarrow> Raise e
                            | Inr found \<Rightarrow> Return (Some found))))"

fun check_project_exists_loop ::
  "world \<Rightarrow> string \<Rightarrow> nat list \<Rightarrow> sys_state \<Rightarrow> bool outcome \<times> sys_state" where
  "check_project_exists_loop w project_name [] st = (Return False, st)"
| "check_project_exists_loop w project_name (attempt # attempts) st =
     and_then (run_command w projects_list_json False True st) (\<lambda>result st1.
       case (case stdout result of
               Some out \<Rightarrow> if returncode result = 0 \<and> out \<noteq> []
                           then check_project_exists_try w project_name out else Return None
             | None \<Rightarrow> Return None) of
         Return (Some found) \<Rightarrow> (Return found, st1)
       | Return None \<Rightarrow> check_project_exists_loop w project_name attempts (py_sleep 1 st1)
       | Exit c \<Rightarrow> (Exit c, st1)
       | Raise e \<Rightarrow> (Raise e, st1))"

definition check_project_exists :: "world \<Rightarrow> string \<Rightarrow> sys_state \<Rightarrow> bool outcome \<times> sys_state" where
  "check_project_exists w project_name st = check_project_exists_loop w project_name [1..<4] st"

subsection \<open>\<open>get_project_id\<close>\<close>

fun find_project_id :: "string \<Rightarrow> json list \<Rightarrow> py_exn + json option" where
  "find_project_id project_name [] = Inr None"
| "find_project_id project_name (project # projects) =
     (case py_get project ''name'' of
        Inl e \<Rightarrow> Inl e
      | Inr name \<Rightarrow>
          if name = JStr project_name then
            (case py_get project ''id'' of
               Inl e \<Rightarrow> Inl e
             | Inr project_id \<Rightarrow> if truthy project_id then Inr (Some project_id)
                                 else find_project_id project_name projects)
          else find_project_id project_name projects)"

definition get_project_id_try :: "world \<Rightarrow> string \<Rightarrow> string \<Rightarrow> json option outcome" where
  "get_project_id_try w project_name out =
     (case loads w out of
        None \<Rightarrow> Return None
      | Some projects \<Rightarrow>
          (case py_iter projects of
             Inl e \<Rightarrow> Raise e
           | Inr ps \<Rightarrow> (case find_project_id project_name ps of
                         Inl e \<Rightarrow> Raise e
                       | Inr r \<Rightarrow> Return r)))"

fun get_project_id_loop ::
  "world \<Rightarrow> string \<Rightarrow> nat list \<Rightarrow> sys_state \<Rightarrow> json outcome \<times> sys_state" where
  "get_project_id_loop w project_name [] st = (Return JNull, st)"
| "get_project_id_loop w project_name (attempt # attempts) st =
     and_then (run_command w projects_list_json False True st) (\<lambda>result st1.
       case (case stdout result of
               Some out \<Rightarrow> if returncode result = 0 \<and> out \<noteq> []
                           then get_project_id_try w project_name out else Return None
             | None \<Rightarrow> Return None) of
         Return (Some project_id) \<Rightarrow> (Return project_id, st1)
       | Return None \<Rightarrow> get_project_id_loop w project_name attempts (py_sleep 10 st1)
       | Exit c \<Rightarrow> (Exit c, st1)
       | Raise e \<Rightarrow> (Raise e, st1))"

definition get_project_id :: "world \<Rightarrow> string \<Rightarrow> sys_state \<Rightarrow> json outcome \<times> sys_state" where
  "get_project_id w project_name st = get_project_id_loop w project_name [1..<6] st"

subsection \<open>\<open>get_api_keys\<close>\<close>

definition api_keys_cmd :: "string \<Rightarrow> string list" where
  "api_keys_cmd project_id =
     [''npx'', ''supabase'', ''projects'', ''api-keys'', ''--project-ref'', project_id]"

definition api_keys_json_cmd :: "string \<Rightarrow> string list" where
  "api_keys_json_cmd project_id =
     [''npx'', ''supabase'', ''projects'', ''api-keys'', ''--project-ref'', project_id, ''-o'', ''json'']"

definition projects_show_cmd :: "string \<Rightarrow> string list" where
  "projects_show_cmd project_id =
     [''npx'', ''supabase'', ''projects'', ''show'', ''--project-ref'', project_id]"

text \<open>\<open>for key in keys_data\<close>, on the pair \<open>(anon_key, service_key)\<close>.\<close>

fun collect_keys :: "json list \<Rightarrow> json \<times> json \<Rightarrow> py_exn + json \<times> json" where
  "collect_keys [] found = Inr found"
| "collect_keys (key # keys) (anon_key, service_key) =
     (case py_get key ''name'' of
        Inl e \<Rightarrow> Inl e
      | Inr name \<Rightarrow>
          if name = JStr ''anon'' then
            (case py_get key ''api_key'' of
               Inl e \<Rightarrow> Inl e
             | Inr v \<Rightarrow> collect_keys keys (v, service_key))
          else if name = JStr ''service_role'' then
            (case py_get key ''api_key'' of
               Inl e \<Rightarrow> Inl e
             | Inr v \<Rightarrow> collect_keys keys (anon_key, v))
          else collect_keys keys (anon_key, service_key))"

text \<open>The alternative extraction, in the handler of \<open>JSONDecodeError\<close>.\<close>

definition extract_keys_fallback :: "string \<Rightarrow> (json \<times> json) option" where
  "extract_keys_fallback out =
     (case rx_search (api_key_rx ''anon'') out of
        None \<Rightarrow> None
      | Some anon_key \<Rightarrow>
          (case rx_search (api_key_rx ''service_role'') out of
             None \<Rightarrow> None
           | Some service_key \<Rightarrow> Some (JStr anon_key, JStr service_key)))"

text \<open>The \<open>try\<close> statement of one attempt, on the output of the command.\<close>

definition get_api_keys_try :: "world \<Rightarrow> string \<Rightarrow> (json \<times> json) option outcome" where
  "get_api_keys_try w out =
     (case loads w out of
        Some keys_data \<Rightarrow>
          (case py_iter keys_data of
             Inl e \<Rightarrow> Raise e
           | Inr keys \<Rightarrow>
               (case collect_keys keys (JNull, JNull) of
                  Inl e \<Rightarrow> Raise e
                | Inr (anon_key, service_key) \<Rightarrow>
                    if truthy anon_key \<and> truthy service_key
                    then Return (Some (anon_key, service_key)) else Return None))
      | None \<Rightarrow> Return (extract_keys_fallback out))"

text \<open>
  One attempt: on the first, the command is first run without capture to show its output;
  then the JSON command; an attempt that returns nothing sleeps \<open>attempt * 5\<close> seconds.
\<close>

definition get_api_keys_attempt ::
  "world \<Rightarrow> string \<Rightarrow> nat \<Rightarrow> sys_state \<Rightarrow> (json \<times> json) option outcome \<times> sys_state" where
  "get_api_keys_attempt w project_id attempt st =
     and_then (if attempt = 1 then run_command w (api_keys_cmd project_id) False False st
               else (Return \<lparr>returncode = 0, stdout = None\<rparr>, st)) (\<lambda>shown st0.
     and_then (run_command w (api_keys_json_cmd project_id) False True st0) (\<lambda>result st1.
       case (case stdout result of
               Some out \<Rightarrow> if returncode result = 0 \<and> out \<noteq> []
                           then get_api_keys_try w out else Return None
             | None \<Rightarrow> Return None) of
         Return (Some keys) \<Rightarrow> (Return (Some keys), st1)
       | Return None \<Rightarrow> (Return None, py_sleep (attempt * 5) st1)
       | Exit c \<Rightarrow> (Exit c, st1)
       | Raise e \<Rightarrow> (Raise e, st1)))"

fun get_api_keys_loop ::
  "world \<Rightarrow> string \<Rightarrow> nat list \<Rightarrow> sys_state \<Rightarrow> (json \<times> json) option outcome \<times> sys_state" where
  "get_api_keys_loop w project_id [] st = (Return None, st)"
| "get_api_keys_loop w project_id (attempt # attempts) st =
     and_then (get_api_keys_attempt w project_id attempt st) (\<lambda>r st1.
       case r of
         Some keys \<Rightarrow> (Return (Some keys), st1)
       | None \<Rightarrow> get_api_keys_loop w project_id attempts st1)"

text \<open>After the attempts, the keys are looked for in the output of \<open>projects show\<close>.\<close>

definition extract_keys_show :: "string \<Rightarrow> (json \<times> json) option" where
  "extract_keys_show out =
     (case rx_search (show_key_rx ''anon'') out of
        None \<Rightarrow> None
      | Some anon_match \<Rightarrow>
          (case rx_search (show_key_rx ''service_role'') out of
             None \<Rightarrow> None
           | Some service_match \<Rightarrow> Some (JStr (strip anon_match), JStr (strip service_match))))"

definition get_api_keys :: "world \<Rightarrow> string \<Rightarrow> sys_state \<Rightarrow> (json \<times> json) outcome \<times> sys_state" where
  "get_api_keys w project_id st =
     and_then (get_api_keys_loop w project_id [1..<6] st) (\<lambda>r st1.
       case r of
         Some keys \<Rightarrow> (Return keys, st1)
       | None \<Rightarrow>
           and_then (run_command w (projects_show_cmd project_id) False True st1) (\<lambda>result st2.
             case stdout result of
               Some out \<Rightarrow>
                 if returncode result = 0 \<and> out \<noteq> [] then
                   (case extract_keys_show out of
                      Some keys \<Rightarrow> (Return keys, st2)
                    | None \<Rightarrow> (Return (JNull, JNull), st2))
                 else (Return (JNull, JNull), st2)
             | None \<Rightarrow> (Return (JNull, JNull), st2)))"

subsection \<open>\<open>get_api_keys\<close> of create-project.py\<close>

text \<open>
  One command, run with \<open>check\<close>; \<open>error\<close> when the keys are not both there and in the
  handler of \<open>JSONDecodeError\<close>. \<open>error\<close> is \<open>sys.exit(1)\<close>.
\<close>

definition api_keys_json_cmd_create :: "string \<Rightarrow> string list" where
  "api_keys_json_cmd_create project_id =
     [''npx'', ''supabase'', ''projects'', ''api-keys'', ''--project-ref='' @ project_id, ''-o'', ''json'']"

definition get_api_keys_create ::
  "world \<Rightarrow> string \<Rightarrow> sys_state \<Rightarrow> (json \<times> json) outcome \<times> sys_state" where
  "get_api_keys_create w project_id st =
     and_then (run_command w (api_keys_json_cmd_create project_id) True True st) (\<lambda>result st1.
       case stdout result of
         None \<Rightarrow> (Raise TypeError, st1)
       | Some out \<Rightarrow>
           (case loads w out of
              None \<Rightarrow> (Exit 1, st1)
            | Some keys_data \<Rightarrow>
                (case py_iter keys_data of
                   Inl e \<Rightarrow> (Raise e, st1)
                 | Inr keys \<Rightarrow>
                     (case collect_keys keys (JNull, JNull) of
                        Inl e \<Rightarrow> (Raise e, st1)
                      | Inr (anon_key, service_key) \<Rightarrow>
                          if truthy anon_key \<and> truthy service_key
                          then (Return (anon_key, service_key), st1) else (Exit 1, st1)))))"

subsection \<open>\<open>create_project\<close>\<close>

definition create_cmd :: "string \<Rightarrow> string \<Rightarrow> string \<Rightarrow> string \<Rightarrow> string list" where
  "create_cmd project_name org_id db_password region =
     [''npx'', ''supabase'', ''projects'', ''create'', project_name, ''--org-id'', org_id,
      ''--db-password'', db_password, ''--region'', region]"

text \<open>
  The attempts at creation: a zero exit leaves the iteration (\<open>break\<close>); a failed attempt
  before the third sleeps one second; the third failed attempt is only logged
  (\<open>Will try to continue in case the project was actually created despite the error\<close>).
\<close>

fun create_project_loop :: "world \<Rightarrow> string list \<Rightarrow> nat list \<Rightarrow> sys_state \<Rightarrow> sys_state" where
  "create_project_loop w cmd [] st = st"
| "create_project_loop w cmd (attempt # attempts) st =
     (case run_command w cmd False True st of
        (Return result, st1) \<Rightarrow>
          if returncode result = 0 then st1
          else if attempt < 3 then create_project_loop w cmd attempts (py_sleep 1 st1)
          else create_project_loop w cmd attempts st1
      | (_, st1) \<Rightarrow> st1)"

text \<open>
  The password is drawn, saved to \<open>template_postgres_pw\<close>, the project created, and its
  identifier looked up: \<open>error\<close> when the lookup gives nothing.
\<close>

definition create_project ::
  "world \<Rightarrow> string \<Rightarrow> string \<Rightarrow> string \<Rightarrow> sys_state \<Rightarrow> (json \<times> string) outcome \<times> sys_state" where
  "create_project w project_name org_id region st =
     (let db_password = generate_secure_password_setup (\<lambda>i. draws w (ndraws st + i)) 16;
          st1 = write_file ''template_postgres_pw'' db_password (st\<lparr>ndraws := ndraws st + 16\<rparr>);
          st2 = create_project_loop w (create_cmd project_name org_id db_password region) [1..<4] st1
      in and_then (get_project_id w project_name st2) (\<lambda>project_id st3.
           if \<not> truthy project_id then (Exit 1, st3)
           else (Return (project_id, db_password), st3)))"

subsection \<open>\<open>link_project\<close>, \<open>sync_remote_changes\<close>, \<open>apply_migrations\<close>, \<open>setup_auth_urls\<close>\<close>

definition link_cmd :: "string \<Rightarrow> string \<Rightarrow> string list" where
  "link_cmd project_id db_password =
     [''npx'', ''supabase'', ''link'', ''--project-ref'', project_id, ''--password'', db_password]"

fun link_project_loop :: "world \<Rightarrow> string list \<Rightarrow> nat list \<Rightarrow> sys_state \<Rightarrow> bool outcome \<times> sys_state" where
  "link_project_loop w cmd [] st = (Return False, st)"
| "link_project_loop w cmd (attempt # attempts) st =
     and_then (run_command w cmd False True st) (\<lambda>result st1.
       if returncode result = 0 then (Return True, st1)
       else if attempt = 5 then (Exit 1, st1)
       else link_project_loop w cmd attempts (py_sleep 10 st1))"

definition link_project :: "world \<Rightarrow> string \<Rightarrow> string \<Rightarrow> sys_state \<Rightarrow> bool outcome \<times> sys_state" where
  "link_project w project_id db_password st =
     link_project_loop w (link_cmd project_id db_password) [1..<6] st"

fun sync_remote_changes_loop :: "world \<Rightarrow> nat list \<Rightarrow> sys_state \<Rightarrow> bool outcome \<times> sys_state" where
  "sync_remote_changes_loop w [] st = (Return False, st)"
| "sync_remote_changes_loop w (attempt # attempts) st =
     and_then (run_command w [''npx'', ''supabase'', ''db'', ''remote'', ''changes''] False True st)
       (\<lambda>result st1.
          if returncode result = 0 then (Return True, st1)
          else if attempt = 3 then (Exit 1, st1)
          else sync_remote_changes_loop w attempts (py_sleep 5 st1))"

definition sync_remote_changes :: "world \<Rightarrow> sys_state \<Rightarrow> bool outcome \<times> sys_state" where
  "sync_remote_changes w st = sync_remote_changes_loop w [1..<4] st"

fun apply_migrations_loop :: "world \<Rightarrow> nat list \<Rightarrow> sys_state \<Rightarrow> bool outcome \<times> sys_state" where
  "apply_migrations_loop w [] st = (Return False, st)"
| "apply_migrations_loop w (attempt # attempts) st =
     and_then (run_command w [''npx'', ''supabase'', ''db'', ''push''] False True st)
       (\<lambda>result st1.
          if returncode result = 0 then (Return True, st1)
          else if attempt = 3 then (Exit 1, st1)
          else apply_migrations_loop w attempts (py_sleep 5 st1))"

definition apply_migrations :: "world \<Rightarrow> sys_state \<Rightarrow> bool outcome \<times> sys_state" where
  "apply_migrations w st = apply_migrations_loop w [1..<4] st"

text \<open>
  \<open>setup_auth_urls\<close> has two iterations of the same shape, one per configuration key; a
  zero exit leaves the iteration.
\<close>

fun config_set_loop :: "world \<Rightarrow> string list \<Rightarrow> nat list \<Rightarrow> sys_state \<Rightarrow> unit outcome \<times> sys_state" where
  "config_set_loop w cmd [] st = (Return (), st)"
| "config_set_loop w cmd (attempt # attempts) st =
     and_then (run_command w cmd False True st) (\<lambda>result st1.
       if returncode result = 0 then (Return (), st1)
       else if attempt = 3 then (Exit 1, st1)
       else config_set_loop w cmd attempts (py_sleep 3 st1))"

definition setup_auth_urls :: "world \<Rightarrow> sys_state \<Rightarrow> bool outcome \<times> sys_state" where
  "setup_auth_urls w st =
     and_then (config_set_loop w
        [''npx'', ''supabase'', ''config'', ''set'', ''auth.site_url'', ''http://localhost:3000'']
        [1..<4] st) (\<lambda>u st1.
     and_then (config_set_loop w
        [''npx'', ''supabase'', ''config'', ''set'', ''auth.additional_redirect_urls'',
         ''['' @ [DQ] @ ''http://localhost:3000'' @ [DQ] @ '']'']
        [1..<4] st1) (\<lambda>u st2. (Return True, st2)))"

text \<open>
  What a pass makes of an original line when the values are plain: the line itself when
  no key matches it, else \<open>KEY=value\<close> of the key that matches it.
\<close>

definition synced_line :: "(string \<times> string) list \<Rightarrow> string \<Rightarrow> string" where
  "synced_line kvs l =
     (case find (\<lambda>kv. key_line (fst kv) l) kvs of
        None \<Rightarrow> l
      | Some kv \<Rightarrow> env_line (fst kv) (snd kv))"

section \<open>Worlds and states used in the statements\<close>

text \<open>
  The state at the start of a script; the world where every command fails with exit
  code 1; the output of \<open>projects list -o json\<close> for one project \<open>app\<close> with identifier
  \<open>abc\<close>, and the world where the first three commands fail and every later one gives
  that output.
\<close>

definition initial_state :: sys_state where
  "initial_state = \<lparr>files = (\<lambda>path. None), ncalls = 0, slept = [], ndraws = 0\<rparr>"

definition failing_world :: world where
  "failing_world = \<lparr>respond = (\<lambda>n cmd. (1, [])), loads = (\<lambda>s. None), draws = (\<lambda>i. 0)\<rparr>"

definition projects_output :: string where
  "projects_output =
     ''[{'' @ [DQ] @ ''name'' @ [DQ] @ '':'' @ [DQ] @ ''app'' @ [DQ] @ '','' @
     [DQ] @ ''id'' @ [DQ] @ '':'' @ [DQ] @ ''abc'' @ [DQ] @ ''}]''"

definition late_world :: world where
  "late_world =
     \<lparr>respond = (\<lambda>n cmd. if n < 3 then (1, []) else (0, projects_output)),
      loads = (\<lambda>s. if s = projects_output
                    then Some (JArr [JObj [(''name'', JStr ''app''), (''id'', JStr ''abc'')]])
                    else None),
      draws = (\<lambda>i. 0)\<rparr>"

text \<open>
  An output of \<open>projects api-keys -o json\<close> that is not JSON (a comma before the closing
  bracket) but holds both keys, and the world where every command gives it with exit
  code 0.
\<close>

definition keys_output_bad :: string where
  "keys_output_bad =
     ''[{'' @ [DQ] @ ''name'' @ [DQ] @ '':'' @ [DQ] @ ''anon'' @ [DQ] @ '','' @
     [DQ] @ ''api_key'' @ [DQ] @ '':'' @ [DQ] @ ''k1'' @ [DQ] @ ''},{'' @
     [DQ] @ ''name'' @ [DQ] @ '':'' @ [DQ] @ ''service_role'' @ [DQ] @ '','' @
     [DQ] @ ''api_key'' @ [DQ] @ '':'' @ [DQ] @ ''k2'' @ [DQ] @ ''},]''"

definition unparsable_world :: world where
  "unparsable_world =
     \<lparr>respond = (\<lambda>n cmd. (0, keys_output_bad)), loads = (\<lambda>s. None), draws = (\<lambda>i. 0)\<rparr>"

text \<open>
  Values that also survive writing and reading back: no carriage return, which reading
  would turn into a line feed.
\<close>

definition file_value :: "string \<Rightarrow> bool" where
  "file_value v \<longleftrightarrow> env_value v \<and> CR \<notin> set v"

text \<open>
  What the code takes for a failed attempt of a lookup, on the exit code and the output
  of its command: the exit code is not zero, or the output is empty, or the \<open>try\<close>
  statement on the output ends without a result. For \<open>check_project_exists\<close> that is an
  output that is not JSON; for \<open>get_project_id\<close>, an output that is not JSON or that lists
  no project of the name with an identifier; for \<open>get_api_keys\<close>, a JSON output without
  both keys, or an output that is not JSON and that the two patterns do not both match.
  \<open>show_fails\<close> is the same for the command \<open>projects show\<close> that \<open>get_api_keys\<close> runs
  after its attempts.
\<close>

definition check_attempt_fails :: "world \<Rightarrow> int \<times> string \<Rightarrow> bool" where
  "check_attempt_fails w r \<longleftrightarrow> fst r \<noteq> 0 \<or> snd r = [] \<or> loads w (snd r) = None"

definition project_id_attempt_fails :: "world \<Rightarrow> string \<Rightarrow> int \<times> string \<Rightarrow> bool" where
  "project_id_attempt_fails w project_name r \<longleftrightarrow>
     fst r \<noteq> 0 \<or> snd r = [] \<or> get_project_id_try w project_name (snd r) = Return None"

definition keys_attempt_fails :: "world \<Rightarrow> int \<times> string \<Rightarrow> bool" where
  "keys_attempt_fails w r \<longleftrightarrow>
     fst r \<noteq> 0 \<or> snd r = [] \<or> get_api_keys_try w (snd r) = Return None"

definition show_fails :: "int \<times> string \<Rightarrow> bool" where
  "show_fails r \<longleftrightarrow> fst r \<noteq> 0 \<or> snd r = [] \<or> extract_keys_show (snd r) = None"

text \<open>A parsed output that is a list of objects, none of them with the name.\<close>

definition lists_no_project :: "string \<Rightarrow> json \<Rightarrow> bool" where
  "lists_no_project project_name j =
     (case j of
        JArr ps \<Rightarrow>
          list_all (\<lambda>p. case p of
                           JObj kvs \<Rightarrow> map_of kvs ''name'' \<noteq> Some (JStr project_name)
                         | _ \<Rightarrow> False) ps
      | _ \<Rightarrow> False)"

text \<open>
  The password that \<open>create_project\<close> draws in a state, and the state after its three
  commands have failed: the password drawn and saved in \<open>template_postgres_pw\<close>, three
  commands run, a sleep of one second after the first and after the second.
\<close>

definition drawn_password :: "world \<Rightarrow> sys_state \<Rightarrow> string" where
  "drawn_password w st = generate_secure_password_setup (\<lambda>i. draws w (ndraws st + i)) 16"

definition after_failed_creation :: "world \<Rightarrow> sys_state \<Rightarrow> sys_state" where
  "after_failed_creation w st =
     (write_file ''template_postgres_pw'' (drawn_password w st) (st\<lparr>ndraws := ndraws st + 16\<rparr>))
       \<lparr>ncalls := ncalls st + 3, slept := slept st @ [1, 1]\<rparr>"

text \<open>
  The world where every command exits with zero and prints the empty list \<open>[]\<close>; the
  world where every command exits with zero and prints a JSON object, as a service does
  for an error; the world where only the second command exits with zero.
\<close>

definition empty_list_world :: world where
  "empty_list_world =
     \<lparr>respond = (\<lambda>n cmd. (0, ''[]'')),
      loads = (\<lambda>s. if s = ''[]'' then Some (JArr []) else None),
      draws = (\<lambda>i. 0)\<rparr>"

definition error_output :: string where
  "error_output = ''{'' @ [DQ] @ ''message'' @ [DQ] @ '':'' @ [DQ] @ ''x'' @ [DQ] @ ''}''"

definition error_body_world :: world where
  "error_body_world =
     \<lparr>respond = (\<lambda>n cmd. (0, error_output)),
      loads = (\<lambda>s. if s = error_output then Some (JObj [(''message'', JStr ''x'')]) else None),
      draws = (\<lambda>i. 0)\<rparr>"

definition second_call_world :: world where
  "second_call_world =
     \<lparr>respond = (\<lambda>n cmd. if n = 1 then (0, []) else (1, [])), loads = (\<lambda>s. None),
      draws = (\<lambda>i. 0)\<rparr>"

text \<open>
  The text of \<open>.env\<close> after \<open>update_env_file\<close> of setup.py has run from no file at all, with
  the URL \<open>u\<close>, the keys \<open>k\<close> and \<open>s\<close>, the password \<open>p\<close> and an organization identifier.
\<close>

definition env_after_first :: "string \<Rightarrow> string" where
  "env_after_first org_id =
     LF # ''NEXT_PUBLIC_SUPABASE_URL=u'' @ LF # ''NEXT_PUBLIC_SUPABASE_ANON_KEY=k'' @
     LF # ''SUPABASE_URL=u'' @ LF # ''SUPABASE_ANON_KEY=k'' @ LF # ''SUPABASE_SERVICE_KEY=s'' @
     LF # ''POSTGRES_PASSWORD=p'' @ LF # ''SUPABASE_ORG_ID='' @ org_id"

section \<open>Properties of lines\<close>

lemma split_lines_not_Nil [simp]: "split_lines t \<noteq> []"
  by (induction t) (auto split: list.splits)

lemma split_lines_no_LF: "l \<in> set (split_lines t) \<Longrightarrow> LF \<notin> set l"
proof (induction t arbitrary: l)
  case Nil
  then show ?case by simp
next
  case (Cons c cs)
  obtain h r where hr: "split_lines cs = h # r"
    by (cases "split_lines cs") auto
  with Cons show ?case
    by (auto split: if_splits)
qed

lemma join_split_lines [simp]: "join_lines (split_lines t) = t"
proof (induction t)
  case Nil
  then show ?case by simp
next
  case (Cons c cs)
  obtain h r where hr: "split_lines cs = h # r"
    by (cases "split_lines cs") auto
  with Cons show ?case
    by (cases r) auto
qed

lemma split_lines_append_LF: "split_lines (a @ LF # b) = split_lines a @ split_lines b"
proof (induction a)
  case Nil
  then show ?case by simp
next
  case (Cons c cs)
  obtain h r where hr: "split_lines cs = h # r"
    by (cases "split_lines cs") auto
  with Cons show ?case by simp
qed

lemma split_lines_plain: "LF \<notin> set l \<Longrightarrow> split_lines l = [l]"
  by (induction l) auto

lemma join_lines_Cons: "ls \<noteq> [] \<Longrightarrow> join_lines (l # ls) = l @ LF # join_lines ls"
  by (cases ls) auto

lemma join_lines_snoc: "ls \<noteq> [] \<Longrightarrow> join_lines (ls @ [x]) = join_lines ls @ LF # x"
  by (induction ls rule: join_lines.induct) auto

lemma split_join_lines_concat:
  "ls \<noteq> [] \<Longrightarrow> split_lines (join_lines ls) = concat (map split_lines ls)"
  by (induction ls rule: join_lines.induct) (auto simp: split_lines_append_LF)

lemma split_join_lines:
  "ls \<noteq> [] \<Longrightarrow> \<forall>l\<in>set ls. LF \<notin> set l \<Longrightarrow> split_lines (join_lines ls) = ls"
  by (induction ls rule: join_lines.induct) (auto simp: split_lines_append_LF split_lines_plain)

lemma parse_template_plain: "BSL \<notin> set r \<Longrightarrow> parse_template r = Inr (map Lit r)"
  by (induction r) (auto simp: cons_ok_def)

lemma expand_Lit [simp]: "expand (map Lit r) m = r"
  by (induction r) (auto simp: expand_def)

lemma env_key_chars: "env_key k \<Longrightarrow> c \<in> set k \<Longrightarrow> word_char c"
  by (simp add: env_key_def list_all_iff)

lemma word_char_facts: "\<not> word_char LF" "\<not> word_char BSL" "\<not> word_char (CHR ''='')"
  by (simp_all add: word_char_def ascii_letters_def ascii_lowercase_def ascii_uppercase_def digits_def)

lemma env_key_no: assumes "env_key k"
  shows "LF \<notin> set k" "BSL \<notin> set k" "CHR ''='' \<notin> set k"
  using env_key_chars [OF assms] word_char_facts by blast+

lemma pattern_sub_plain:
  assumes "BSL \<notin> set r"
  shows "pattern_sub k r t =
         Inr (join_lines (map (\<lambda>l. if key_line k l then r else l) (split_lines t)))"
  by (simp add: pattern_sub_def parse_template_plain [OF assms] cong: if_cong)

lemma env_line_no:
  assumes "env_key k" "env_value v"
  shows "LF \<notin> set (env_line k v)" "BSL \<notin> set (env_line k v)"
  using env_key_no [OF assms(1)] assms(2) by (simp_all add: env_line_def env_value_def)

lemma sync_key_lines:
  assumes "env_key k" "env_value v"
  shows "sync_key k v t = Inr (join_lines (sync_lines k v (split_lines t)))"
  by (simp add: sync_key_def sync_lines_def pattern_search_def join_lines_snoc
      pattern_sub_plain [OF env_line_no(2) [OF assms]])

lemma sync_lines_no_LF:
  assumes "env_key k" "env_value v" "\<forall>l\<in>set ls. LF \<notin> set l"
  shows "\<forall>l\<in>set (sync_lines k v ls). LF \<notin> set l"
  using assms(3) env_line_no(1) [OF assms(1,2)] by (auto simp: sync_lines_def)

lemma sync_lines_not_Nil: "ls \<noteq> [] \<Longrightarrow> sync_lines k v ls \<noteq> []"
  by (simp add: sync_lines_def)

lemma sync_vars_lines_eq_aux:
  assumes "\<forall>kv\<in>set kvs. env_key (fst kv) \<and> env_value (snd kv)" "ls \<noteq> []"
    "\<forall>l\<in>set ls. LF \<notin> set l"
  shows "sync_vars kvs (join_lines ls) = Inr (join_lines (sync_vars_lines kvs ls))"
  using assms
proof (induction kvs arbitrary: ls)
  case Nil
  then show ?case by simp
next
  case (Cons kv kvs)
  obtain k v where kv: "kv = (k, v)" by (cases kv)
  with Cons.prems have ok: "env_key k" "env_value v" by auto
  have sp: "split_lines (join_lines ls) = ls"
    using Cons.prems(2,3) by (rule split_join_lines)
  have rest: "\<forall>kv\<in>set kvs. env_key (fst kv) \<and> env_value (snd kv)"
    using Cons.prems(1) by simp
  have "sync_vars kvs (join_lines (sync_lines k v ls)) =
        Inr (join_lines (sync_vars_lines kvs (sync_lines k v ls)))"
    using rest sync_lines_not_Nil [OF Cons.prems(2)] sync_lines_no_LF [OF ok Cons.prems(3)]
    by (rule Cons.IH)
  then show ?case
    by (simp add: kv sync_key_lines [OF ok] sp)
qed

lemma sync_vars_lines_eq:
  assumes "\<forall>kv\<in>set kvs. env_key (fst kv) \<and> env_value (snd kv)"
  shows "sync_vars kvs t = Inr (join_lines (sync_vars_lines kvs (split_lines t)))"
proof -
  have "\<forall>l\<in>set (split_lines t). LF \<notin> set l"
    using split_lines_no_LF by blast
  from sync_vars_lines_eq_aux [OF assms split_lines_not_Nil this]
  show ?thesis by simp
qed

lemma key_line_prefix: "key_line k l \<longleftrightarrow> prefix (k @ ''='') l"
  unfolding key_line_def startswith_def
  by (metis append_eq_conv_conj prefix_def take_is_prefix)

lemma key_line_own [simp]: "key_line k (env_line k v)"
  by (simp add: key_line_prefix env_line_def)

lemma prefix_snoc_same:
  assumes "prefix (k @ [e]) (k' @ [e])" "e \<notin> set k'"
  shows "k = k'"
proof -
  obtain zs where zs: "k' @ [e] = (k @ [e]) @ zs"
    using assms(1) by (auto simp: prefix_def)
  show ?thesis
  proof (cases zs rule: rev_cases)
    case Nil
    with zs show ?thesis by simp
  next
    case (snoc ys y)
    with zs have "k' = k @ e # ys" by simp
    with assms(2) show ?thesis by simp
  qed
qed

lemma key_line_same:
  assumes "CHR ''='' \<notin> set k" "CHR ''='' \<notin> set k'" "key_line k l" "key_line k' l"
  shows "k = k'"
proof -
  have "prefix (k @ ''='') (k' @ ''='') \<or> prefix (k' @ ''='') (k @ ''='')"
    using assms(3,4) prefix_same_cases unfolding key_line_prefix by blast
  then show ?thesis
    using assms(1,2) prefix_snoc_same by metis
qed

lemma key_line_diff:
  assumes "env_key k" "env_key k'" "k \<noteq> k'" "key_line k l"
  shows "\<not> key_line k' l"
  using key_line_same [OF env_key_no(3) [OF assms(1)] env_key_no(3) [OF assms(2)]] assms(3,4)
  by blast

lemma key_line_other:
  assumes "env_key k" "env_key k'" "k \<noteq> k'"
  shows "\<not> key_line k (env_line k' v)"
  using key_line_diff [OF assms(2,1)] assms(3) key_line_own by blast

lemma sync_lines_settles: "settled k v (sync_lines k v ls)"
proof (cases "list_ex (key_line k) ls")
  case True
  then obtain l where "l \<in> set ls" "key_line k l" by (auto simp: list_ex_iff)
  then have "env_line k v \<in> set (sync_lines k v ls)"
    using True by (force simp: sync_lines_def)
  then have "list_ex (key_line k) (sync_lines k v ls)"
    using key_line_own unfolding list_ex_iff by blast
  moreover have "\<forall>l\<in>set (sync_lines k v ls). key_line k l \<longrightarrow> l = env_line k v"
    using True by (auto simp: sync_lines_def)
  ultimately show ?thesis by (simp add: settled_def)
next
  case False
  then show ?thesis
    by (auto simp: settled_def sync_lines_def list_ex_iff)
qed

lemma sync_lines_fix:
  assumes "settled k v ls"
  shows "sync_lines k v ls = ls"
proof -
  have "map (\<lambda>l. if key_line k l then env_line k v else l) ls = ls"
    using assms by (intro map_idI) (auto simp: settled_def)
  then show ?thesis
    using assms by (simp add: settled_def sync_lines_def)
qed

lemma sync_lines_preserves:
  assumes "env_key k" "env_key k'" "k \<noteq> k'" "settled k v ls"
  shows "settled k v (sync_lines k' v' ls)"
proof -
  have other: "\<not> key_line k (env_line k' v')"
    using assms(1-3) by (rule key_line_other)
  have diff: "\<And>l. key_line k l \<Longrightarrow> \<not> key_line k' l"
    using key_line_diff [OF assms(1-3)] .
  obtain l where l: "l \<in> set ls" "key_line k l"
    using assms(4) by (auto simp: settled_def list_ex_iff)
  then have "l \<in> set (sync_lines k' v' ls)"
    using diff by (force simp: sync_lines_def)
  then have "list_ex (key_line k) (sync_lines k' v' ls)"
    using l(2) unfolding list_ex_iff by blast
  moreover have "\<forall>l\<in>set (sync_lines k' v' ls). key_line k l \<longrightarrow> l = env_line k v"
    using assms(4) other by (auto simp: settled_def sync_lines_def)
  ultimately show ?thesis by (simp add: settled_def)
qed

lemma sync_vars_lines_preserves:
  assumes "env_key k" "\<forall>kv\<in>set kvs. env_key (fst kv)" "k \<notin> fst ` set kvs" "settled k v ls"
  shows "settled k v (sync_vars_lines kvs ls)"
  using assms(2-4)
proof (induction kvs arbitrary: ls)
  case Nil
  then show ?case by simp
next
  case (Cons kv kvs)
  obtain k' v' where kv: "kv = (k', v')" by (cases kv)
  have k': "env_key k'" "k \<noteq> k'"
    using Cons.prems(1,2) kv by auto
  have "settled k v (sync_lines k' v' ls)"
    using assms(1) k' Cons.prems(3) by (rule sync_lines_preserves)
  moreover have "\<forall>kv\<in>set kvs. env_key (fst kv)" "k \<notin> fst ` set kvs"
    using Cons.prems(1,2) by auto
  ultimately have "settled k v (sync_vars_lines kvs (sync_lines k' v' ls))"
    by (rule Cons.IH [rotated 2])
  then show ?case by (simp add: kv)
qed

lemma sync_vars_lines_settled:
  assumes "\<forall>kv\<in>set kvs. env_key (fst kv)" "distinct (map fst kvs)" "(k, v) \<in> set kvs"
  shows "settled k v (sync_vars_lines kvs ls)"
  using assms
proof (induction kvs arbitrary: ls)
  case Nil
  then show ?case by simp
next
  case (Cons kv kvs)
  obtain k' v' where kv: "kv = (k', v')" by (cases kv)
  have rest: "\<forall>kv\<in>set kvs. env_key (fst kv)" "distinct (map fst kvs)"
    using Cons.prems(1,2) by auto
  show ?case
  proof (cases "(k, v) = kv")
    case True
    then have same: "k' = k" "v' = v" using kv by auto
    have "env_key k" using Cons.prems(1) kv same by simp
    moreover have "k \<notin> fst ` set kvs" using Cons.prems(2) kv same by simp
    moreover have "settled k v (sync_lines k v ls)" by (rule sync_lines_settles)
    ultimately have "settled k v (sync_vars_lines kvs (sync_lines k v ls))"
      using rest(1) by (intro sync_vars_lines_preserves)
    then show ?thesis by (simp add: kv same)
  next
    case False
    then have "(k, v) \<in> set kvs" using Cons.prems(3) by simp
    then have "settled k v (sync_vars_lines kvs (sync_lines k' v' ls))"
      using rest by (intro Cons.IH)
    then show ?thesis by (simp add: kv)
  qed
qed

lemma sync_vars_lines_fix:
  assumes "\<forall>kv\<in>set kvs. settled (fst kv) (snd kv) ls"
  shows "sync_vars_lines kvs ls = ls"
  using assms
proof (induction kvs)
  case Nil
  then show ?case by simp
next
  case (Cons kv kvs)
  obtain k v where kv: "kv = (k, v)" by (cases kv)
  have "sync_lines k v ls = ls"
    using Cons.prems kv by (intro sync_lines_fix) simp
  then show ?case
    using Cons kv by simp
qed

lemma sync_vars_lines_idem:
  assumes "\<forall>kv\<in>set kvs. env_key (fst kv)" "distinct (map fst kvs)"
  shows "sync_vars_lines kvs (sync_vars_lines kvs ls) = sync_vars_lines kvs ls"
proof (rule sync_vars_lines_fix, rule ballI)
  fix kv assume "kv \<in> set kvs"
  then have "(fst kv, snd kv) \<in> set kvs" by simp
  then show "settled (fst kv) (snd kv) (sync_vars_lines kvs ls)"
    using assms by (intro sync_vars_lines_settled)
qed

lemma sync_vars_lines_no_LF:
  assumes "\<forall>kv\<in>set kvs. env_key (fst kv) \<and> env_value (snd kv)" "\<forall>l\<in>set ls. LF \<notin> set l"
  shows "\<forall>l\<in>set (sync_vars_lines kvs ls). LF \<notin> set l"
  using assms
proof (induction kvs arbitrary: ls)
  case Nil
  then show ?case by simp
next
  case (Cons kv kvs)
  obtain k v where kv: "kv = (k, v)" by (cases kv)
  have "env_key k" "env_value v" using Cons.prems(1) kv by auto
  then have "\<forall>l\<in>set (sync_lines k v ls). LF \<notin> set l"
    using Cons.prems(2) by (rule sync_lines_no_LF)
  moreover have "\<forall>kv\<in>set kvs. env_key (fst kv) \<and> env_value (snd kv)"
    using Cons.prems(1) by simp
  ultimately have "\<forall>l\<in>set (sync_vars_lines kvs (sync_lines k v ls)). LF \<notin> set l"
    by (rule Cons.IH [rotated])
  then show ?case by (simp add: kv)
qed

lemma sync_vars_lines_not_Nil: "ls \<noteq> [] \<Longrightarrow> sync_vars_lines kvs ls \<noteq> []"
proof (induction kvs arbitrary: ls)
  case Nil
  then show ?case by simp
next
  case (Cons kv kvs)
  obtain k v where kv: "kv = (k, v)" by (cases kv)
  show ?case using Cons by (simp add: kv sync_lines_not_Nil)
qed

lemma split_lines_sync_vars:
  assumes "\<forall>kv\<in>set kvs. env_key (fst kv) \<and> env_value (snd kv)"
  shows "split_lines (join_lines (sync_vars_lines kvs (split_lines t))) =
         sync_vars_lines kvs (split_lines t)"
proof (rule split_join_lines)
  show "sync_vars_lines kvs (split_lines t) \<noteq> []"
    by (rule sync_vars_lines_not_Nil) simp
  have "\<forall>l\<in>set (split_lines t). LF \<notin> set l"
    using split_lines_no_LF by blast
  with assms show "\<forall>l\<in>set (sync_vars_lines kvs (split_lines t)). LF \<notin> set l"
    by (rule sync_vars_lines_no_LF)
qed

text \<open>
  The pass on a text in memory: for a mapping with distinct keys made of letters, digits
  and underscores and values without line feed and without backslash, the pass returns a
  text, and a second pass with the same mapping on that text returns the same text.
\<close>

lemma sync_vars_twice:
  assumes "\<forall>kv\<in>set kvs. env_key (fst kv) \<and> env_value (snd kv)" "distinct (map fst kvs)"
  shows "\<exists>t1. sync_vars kvs t = Inr t1 \<and> sync_vars kvs t1 = Inr t1"
proof -
  let ?t1 = "join_lines (sync_vars_lines kvs (split_lines t))"
  have keys: "\<forall>kv\<in>set kvs. env_key (fst kv)" using assms(1) by simp
  have "sync_vars kvs t = Inr ?t1"
    using assms(1) by (rule sync_vars_lines_eq)
  moreover have "sync_vars kvs ?t1 = Inr ?t1"
    by (simp only: sync_vars_lines_eq [OF assms(1)] split_lines_sync_vars [OF assms(1)]
        sync_vars_lines_idem [OF keys assms(2)])
  ultimately show ?thesis by blast
qed

lemmas sync_eval = sync_key_def pattern_search_def pattern_sub_def key_line_def startswith_def
  env_line_def cons_ok_def expand_def

text \<open>
  A value that holds a line feed: with \<open>SUPABASE_ORG_ID\<close> set to \<open>a\<close>, line feed, \<open>b\<close>, the
  first pass appends two lines, and the second pass replaces the first of them by both
  again.
\<close>

lemma sync_vars_line_feed_example:
  "sync_vars [(''SUPABASE_ORG_ID'', [CHR ''a'', LF, CHR ''b''])] [] =
     Inr (LF # ''SUPABASE_ORG_ID=a'' @ [LF, CHR ''b'']) \<and>
   sync_vars [(''SUPABASE_ORG_ID'', [CHR ''a'', LF, CHR ''b''])] (LF # ''SUPABASE_ORG_ID=a'' @ [LF, CHR ''b'']) =
     Inr (LF # ''SUPABASE_ORG_ID=a'' @ [LF, CHR ''b'', LF, CHR ''b'']) \<and>
   LF # ''SUPABASE_ORG_ID=a'' @ [LF, CHR ''b'', LF, CHR ''b''] \<noteq> LF # ''SUPABASE_ORG_ID=a'' @ [LF, CHR ''b'']"
  by (simp add: sync_eval)

text \<open>
  A value with a backslash: appended as it is by the first pass, read as a template by
  the second, which turns the two backslashes into one.
\<close>

lemma sync_vars_backslash_example:
  "sync_vars [(''K'', [CHR ''a'', BSL, BSL, CHR ''b''])] [] = Inr (LF # ''K=a'' @ [BSL, BSL, CHR ''b'']) \<and>
   sync_vars [(''K'', [CHR ''a'', BSL, BSL, CHR ''b''])] (LF # ''K=a'' @ [BSL, BSL, CHR ''b'']) =
     Inr (LF # ''K=a'' @ [BSL, CHR ''b''])"
  by (simp add: sync_eval escapes_def digit_def digits_def)

lemma two_entries_read_back:
  "env_entries (LF # ''SUPABASE_URL=https://abc.supabase.co'' @ LF # ''SUPABASE_ANON_KEY=k1'') =
     [(''SUPABASE_URL'', ''https://abc.supabase.co''), (''SUPABASE_ANON_KEY'', ''k1'')]"
  by code_simp

text \<open>
  C5 (amended). From the empty text, the pass over \<open>SUPABASE_URL\<close> =
  \<open>https://abc.supabase.co\<close> and \<open>SUPABASE_ANON_KEY\<close> = \<open>k1\<close> gives the text made of a line
  feed, the first line, a line feed and the second line: three lines, an empty one and
  then the two entries in the order of the mapping. Its lines that are not empty are
  exactly the two, and read back by \<open>read_env_file\<close> they are exactly the two entries.
\<close>

theorem sync_vars_two_entries:
  "sync_vars [(''SUPABASE_URL'', ''https://abc.supabase.co''), (''SUPABASE_ANON_KEY'', ''k1'')] [] =
     Inr (LF # ''SUPABASE_URL=https://abc.supabase.co'' @ LF # ''SUPABASE_ANON_KEY=k1'') \<and>
   split_lines (LF # ''SUPABASE_URL=https://abc.supabase.co'' @ LF # ''SUPABASE_ANON_KEY=k1'') =
     [[], ''SUPABASE_URL=https://abc.supabase.co'', ''SUPABASE_ANON_KEY=k1''] \<and>
   filter (\<lambda>l. l \<noteq> [])
     (split_lines (LF # ''SUPABASE_URL=https://abc.supabase.co'' @ LF # ''SUPABASE_ANON_KEY=k1'')) =
     [''SUPABASE_URL=https://abc.supabase.co'', ''SUPABASE_ANON_KEY=k1''] \<and>
   env_entries (LF # ''SUPABASE_URL=https://abc.supabase.co'' @ LF # ''SUPABASE_ANON_KEY=k1'') =
     [(''SUPABASE_URL'', ''https://abc.supabase.co''), (''SUPABASE_ANON_KEY'', ''k1'')]"
proof (intro conjI)
  show "sync_vars [(''SUPABASE_URL'', ''https://abc.supabase.co''), (''SUPABASE_ANON_KEY'', ''k1'')] [] =
     Inr (LF # ''SUPABASE_URL=https://abc.supabase.co'' @ LF # ''SUPABASE_ANON_KEY=k1'')"
    by (simp add: sync_eval)
  show "split_lines (LF # ''SUPABASE_URL=https://abc.supabase.co'' @ LF # ''SUPABASE_ANON_KEY=k1'') =
     [[], ''SUPABASE_URL=https://abc.supabase.co'', ''SUPABASE_ANON_KEY=k1'']"
    by simp
  then show "filter (\<lambda>l. l \<noteq> [])
     (split_lines (LF # ''SUPABASE_URL=https://abc.supabase.co'' @ LF # ''SUPABASE_ANON_KEY=k1'')) =
     [''SUPABASE_URL=https://abc.supabase.co'', ''SUPABASE_ANON_KEY=k1'']"
    by simp
  show "env_entries (LF # ''SUPABASE_URL=https://abc.supabase.co'' @ LF # ''SUPABASE_ANON_KEY=k1'') =
     [(''SUPABASE_URL'', ''https://abc.supabase.co''), (''SUPABASE_ANON_KEY'', ''k1'')]"
    by (rule two_entries_read_back)
qed

text \<open>
  C5 as stated fails: the lines of the text are not exactly the two. Each appended line
  is preceded by a line feed, so the text opens with an empty line and has three lines.
\<close>

theorem sync_vars_two_entries_counterexample:
  "sync_vars [(''SUPABASE_URL'', ''https://abc.supabase.co''), (''SUPABASE_ANON_KEY'', ''k1'')] [] =
     Inr (LF # ''SUPABASE_URL=https://abc.supabase.co'' @ LF # ''SUPABASE_ANON_KEY=k1'') \<and>
   split_lines (LF # ''SUPABASE_URL=https://abc.supabase.co'' @ LF # ''SUPABASE_ANON_KEY=k1'') \<noteq>
     [''SUPABASE_URL=https://abc.supabase.co'', ''SUPABASE_ANON_KEY=k1''] \<and>
   length (split_lines
             (LF # ''SUPABASE_URL=https://abc.supabase.co'' @ LF # ''SUPABASE_ANON_KEY=k1'')) = 3 \<and>
   hd (split_lines
         (LF # ''SUPABASE_URL=https://abc.supabase.co'' @ LF # ''SUPABASE_ANON_KEY=k1'')) = []"
  by (simp add: sync_eval)

section \<open>One key: append or replace in place\<close>

lemma key_count_zero: "key_count k t = 0 \<longleftrightarrow> \<not> pattern_search k t"
  by (auto simp: key_count_def pattern_search_def list_ex_iff filter_empty_conv)

lemma map_single_match:
  assumes "length (filter P ls) = 1"
  shows "\<exists>i<length ls. P (ls ! i) \<and> map (\<lambda>l. if P l then x else l) ls = ls[i := x]"
  using assms
proof (induction ls)
  case Nil
  then show ?case by simp
next
  case (Cons a ls)
  show ?case
  proof (cases "P a")
    case True
    with Cons.prems have "filter P ls = []" by simp
    then have "\<forall>l\<in>set ls. \<not> P l" by (simp add: filter_empty_conv)
    then have "map (\<lambda>l. if P l then x else l) ls = ls" by (intro map_idI) simp
    with True have "P ((a # ls) ! 0) \<and> map (\<lambda>l. if P l then x else l) (a # ls) = (a # ls)[0 := x]"
      by simp
    then show ?thesis by blast
  next
    case False
    with Cons.prems have "length (filter P ls) = 1" by simp
    then obtain i where i: "i < length ls" "P (ls ! i)" "map (\<lambda>l. if P l then x else l) ls = ls[i := x]"
      using Cons.IH by blast
    with False have "Suc i < length (a # ls) \<and> P ((a # ls) ! Suc i) \<and>
        map (\<lambda>l. if P l then x else l) (a # ls) = (a # ls)[Suc i := x]"
      by simp
    then show ?thesis by blast
  qed
qed

lemma list_update_no_LF:
  assumes "\<forall>l\<in>set ls. LF \<notin> set l" "LF \<notin> set x"
  shows "\<forall>l\<in>set (ls[i := x]). LF \<notin> set l"
  using assms set_update_subset_insert [of ls i x] by blast

lemmas count_eval = key_count_def key_line_def startswith_def

text \<open>
  C4 (amended). For a key of letters, digits and underscores and a value without line
  feed and without backslash: when no line of the text begins with \<open>KEY=\<close>, the step
  appends a line feed and \<open>KEY=value\<close>, which is exactly one more line; when exactly one
  line begins with \<open>KEY=\<close>, the step replaces that line by \<open>KEY=value\<close> where it stands, and
  the number of lines does not change.
\<close>

theorem sync_key_absent_or_once:
  assumes "env_key k" "env_value v"
  shows "(key_count k t = 0 \<longrightarrow>
            sync_key k v t = Inr (t @ LF # env_line k v) \<and>
            split_lines (t @ LF # env_line k v) = split_lines t @ [env_line k v]) \<and>
         (key_count k t = 1 \<longrightarrow>
            (\<exists>t' i. sync_key k v t = Inr t' \<and> i < length (split_lines t) \<and>
                    key_line k (split_lines t ! i) \<and>
                    split_lines t' = (split_lines t)[i := env_line k v] \<and>
                    length (split_lines t') = length (split_lines t)))"
proof (intro conjI impI)
  assume "key_count k t = 0"
  then show "sync_key k v t = Inr (t @ LF # env_line k v)"
    by (simp add: key_count_zero sync_key_def)
next
  show "split_lines (t @ LF # env_line k v) = split_lines t @ [env_line k v]"
    by (simp add: split_lines_append_LF split_lines_plain env_line_no(1) [OF assms])
next
  assume one: "key_count k t = 1"
  let ?ls = "split_lines t"
  from one obtain i where i: "i < length ?ls" "key_line k (?ls ! i)"
    "map (\<lambda>l. if key_line k l then env_line k v else l) ?ls = ?ls[i := env_line k v]"
    using map_single_match [of "key_line k" ?ls "env_line k v"] by (auto simp: key_count_def)
  have ex: "list_ex (key_line k) ?ls"
    using i(1,2) by (auto simp: list_ex_iff)
  have t': "sync_key k v t = Inr (join_lines (?ls[i := env_line k v]))"
    using ex i(3) by (simp add: sync_key_lines [OF assms] sync_lines_def)
  have "\<forall>l\<in>set ?ls. LF \<notin> set l" using split_lines_no_LF by blast
  then have "\<forall>l\<in>set (?ls[i := env_line k v]). LF \<notin> set l"
    using env_line_no(1) [OF assms] by (rule list_update_no_LF)
  then have sp: "split_lines (join_lines (?ls[i := env_line k v])) = ?ls[i := env_line k v]"
    by (intro split_join_lines) simp_all
  show "\<exists>t' i. sync_key k v t = Inr t' \<and> i < length ?ls \<and> key_line k (?ls ! i) \<and>
          split_lines t' = ?ls[i := env_line k v] \<and> length (split_lines t') = length ?ls"
    using t' i(1,2) sp by (intro exI [of _ "join_lines (?ls[i := env_line k v])"] exI [of _ i]) simp
qed

theorem sync_key_absent_or_once_witness:
  "key_count ''SUPABASE_URL'' ''OTHER=1'' = 0 \<and>
   sync_key ''SUPABASE_URL'' ''new'' ''OTHER=1'' = Inr (''OTHER=1'' @ LF # env_line ''SUPABASE_URL'' ''new'') \<and>
   key_count ''SUPABASE_URL'' ''SUPABASE_URL=old'' = 1 \<and>
   (\<exists>t' i. sync_key ''SUPABASE_URL'' ''new'' ''SUPABASE_URL=old'' = Inr t' \<and>
           i < length (split_lines ''SUPABASE_URL=old'') \<and>
           key_line ''SUPABASE_URL'' (split_lines ''SUPABASE_URL=old'' ! i) \<and>
           split_lines t' = (split_lines ''SUPABASE_URL=old'')[i := env_line ''SUPABASE_URL'' ''new''] \<and>
           length (split_lines t') = length (split_lines ''SUPABASE_URL=old''))"
proof -
  have hk: "env_key ''SUPABASE_URL''" by code_simp
  have hv: "env_value ''new''" by code_simp
  have c0: "key_count ''SUPABASE_URL'' ''OTHER=1'' = 0" by (simp add: count_eval)
  have c1: "key_count ''SUPABASE_URL'' ''SUPABASE_URL=old'' = 1" by (simp add: count_eval)
  show ?thesis
    using sync_key_absent_or_once [OF hk hv, of "''OTHER=1''"]
      sync_key_absent_or_once [OF hk hv, of "''SUPABASE_URL=old''"] c0 c1
    by blast
qed

text \<open>
  C4 as stated fails for a value that holds a line feed: appended to the empty text it
  makes two new lines, and put in place of the one line of a text it makes two lines
  of one.
\<close>

theorem sync_key_absent_or_once_counterexample:
  "key_count ''SUPABASE_ORG_ID'' [] = 0 \<and>
   sync_key ''SUPABASE_ORG_ID'' [CHR ''a'', LF, CHR ''b''] [] =
     Inr (LF # ''SUPABASE_ORG_ID=a'' @ [LF, CHR ''b'']) \<and>
   length (split_lines []) = 1 \<and>
   length (split_lines (LF # ''SUPABASE_ORG_ID=a'' @ [LF, CHR ''b''])) = 3 \<and>
   key_count ''SUPABASE_ORG_ID'' ''SUPABASE_ORG_ID=old'' = 1 \<and>
   sync_key ''SUPABASE_ORG_ID'' [CHR ''a'', LF, CHR ''b''] ''SUPABASE_ORG_ID=old'' =
     Inr (''SUPABASE_ORG_ID=a'' @ [LF, CHR ''b'']) \<and>
   length (split_lines ''SUPABASE_ORG_ID=old'') = 1 \<and>
   length (split_lines (''SUPABASE_ORG_ID=a'' @ [LF, CHR ''b''])) = 2"
  by (simp add: count_eval sync_eval)

section \<open>The number of lines of a key after a pass\<close>

lemma count_sync_lines_same:
  "length (filter (key_line k) (sync_lines k v ls)) = max 1 (length (filter (key_line k) ls))"
proof (cases "list_ex (key_line k) ls")
  case True
  have "filter (key_line k) (map (\<lambda>l. if key_line k l then env_line k v else l) ls) =
        map (\<lambda>l. env_line k v) (filter (key_line k) ls)"
    by (induction ls) auto
  moreover have "filter (key_line k) ls \<noteq> []"
    using True by (auto simp: list_ex_iff filter_empty_conv)
  then have "1 \<le> length (filter (key_line k) ls)"
    by (cases "filter (key_line k) ls") auto
  ultimately show ?thesis
    using True by (simp add: sync_lines_def max_def)
next
  case False
  then have "filter (key_line k) ls = []"
    by (auto simp: list_ex_iff filter_empty_conv)
  with False show ?thesis
    by (simp add: sync_lines_def)
qed

lemma count_sync_lines_other:
  assumes "env_key k" "env_key k'" "k \<noteq> k'"
  shows "length (filter (key_line k) (sync_lines k' v' ls)) = length (filter (key_line k) ls)"
proof -
  have other: "\<not> key_line k (env_line k' v')"
    using assms by (rule key_line_other)
  have "filter (key_line k) (map (\<lambda>l. if key_line k' l then env_line k' v' else l) ls) =
        filter (key_line k) ls"
    using other key_line_diff [OF assms(2,1)] assms(3) by (induction ls) auto
  then show ?thesis
    using other by (simp add: sync_lines_def)
qed

lemma count_sync_vars_lines_other:
  assumes "env_key k" "\<forall>kv\<in>set kvs. env_key (fst kv)" "k \<notin> fst ` set kvs"
  shows "length (filter (key_line k) (sync_vars_lines kvs ls)) = length (filter (key_line k) ls)"
  using assms(2,3)
proof (induction kvs arbitrary: ls)
  case Nil
  then show ?case by simp
next
  case (Cons kv kvs)
  obtain k' v' where kv: "kv = (k', v')" by (cases kv)
  have k': "env_key k'" "k \<noteq> k'" using Cons.prems kv by auto
  have rest: "\<forall>kv\<in>set kvs. env_key (fst kv)" "k \<notin> fst ` set kvs" using Cons.prems by auto
  show ?case
    by (simp add: kv Cons.IH [OF rest] count_sync_lines_other [OF assms(1) k'])
qed

lemma count_sync_vars_lines:
  assumes "\<forall>kv\<in>set kvs. env_key (fst kv)" "distinct (map fst kvs)" "(k, v) \<in> set kvs"
  shows "length (filter (key_line k) (sync_vars_lines kvs ls)) =
         max 1 (length (filter (key_line k) ls))"
  using assms
proof (induction kvs arbitrary: ls)
  case Nil
  then show ?case by simp
next
  case (Cons kv kvs)
  obtain k' v' where kv: "kv = (k', v')" by (cases kv)
  have rest: "\<forall>kv\<in>set kvs. env_key (fst kv)" "distinct (map fst kvs)"
    using Cons.prems(1,2) by auto
  show ?case
  proof (cases "(k, v) = kv")
    case True
    then have same: "k' = k" "v' = v" using kv by auto
    have "env_key k" using Cons.prems(1) kv same by simp
    moreover have "k \<notin> fst ` set kvs" using Cons.prems(2) kv same by simp
    ultimately show ?thesis
      using rest(1) by (simp add: kv same count_sync_vars_lines_other count_sync_lines_same)
  next
    case False
    then have mem: "(k, v) \<in> set kvs" using Cons.prems(3) by simp
    then have "k \<in> fst ` set kvs" by force
    then have ne: "k \<noteq> k'" using Cons.prems(2) kv by auto
    have ek: "env_key k" "env_key k'" using Cons.prems(1) mem kv by auto
    show ?thesis
      by (simp add: kv Cons.IH [OF rest mem] count_sync_lines_other [OF ek ne])
  qed
qed

text \<open>
  C3 (amended). For a mapping with distinct keys made of letters, digits and underscores
  and values without line feed and without backslash, and a key of the mapping: after
  the pass, the number of lines that begin with \<open>KEY=\<close> is the number before the pass,
  or one when there was none, and each of these lines is \<open>KEY=value\<close>. So the pass leaves
  at most one such line exactly when the text had at most one.
\<close>

theorem sync_vars_key_count:
  assumes "\<forall>kv\<in>set kvs. env_key (fst kv) \<and> env_value (snd kv)" "distinct (map fst kvs)"
    "(k, v) \<in> set kvs"
  shows "\<exists>t'. sync_vars kvs t = Inr t' \<and> key_count k t' = max 1 (key_count k t) \<and>
              (\<forall>l\<in>set (split_lines t'). key_line k l \<longrightarrow> l = env_line k v)"
proof -
  let ?ls' = "sync_vars_lines kvs (split_lines t)"
  have keys: "\<forall>kv\<in>set kvs. env_key (fst kv)" using assms(1) by simp
  have t': "sync_vars kvs t = Inr (join_lines ?ls')"
    using assms(1) by (rule sync_vars_lines_eq)
  have sp: "split_lines (join_lines ?ls') = ?ls'"
    using assms(1) by (rule split_lines_sync_vars)
  have "key_count k (join_lines ?ls') = max 1 (key_count k t)"
    by (simp add: key_count_def sp count_sync_vars_lines [OF keys assms(2,3)])
  moreover have "settled k v ?ls'"
    using keys assms(2,3) by (rule sync_vars_lines_settled)
  then have "\<forall>l\<in>set (split_lines (join_lines ?ls')). key_line k l \<longrightarrow> l = env_line k v"
    by (simp add: sp settled_def)
  ultimately show ?thesis using t' by blast
qed

theorem sync_vars_key_count_witness:
  "\<exists>t'. sync_vars [(''SUPABASE_URL'', ''new'')] ''SUPABASE_URL=old'' = Inr t' \<and>
        key_count ''SUPABASE_URL'' t' = max 1 (key_count ''SUPABASE_URL'' ''SUPABASE_URL=old'') \<and>
        (\<forall>l\<in>set (split_lines t'). key_line ''SUPABASE_URL'' l \<longrightarrow> l = env_line ''SUPABASE_URL'' ''new'')"
proof -
  have h1: "\<forall>kv\<in>set [(''SUPABASE_URL'', ''new'')]. env_key (fst kv) \<and> env_value (snd kv)"
    by code_simp
  have h2: "distinct (map fst [(''SUPABASE_URL'', ''new'')])" by simp
  have h3: "(''SUPABASE_URL'', ''new'') \<in> set [(''SUPABASE_URL'', ''new'')]" by simp
  show ?thesis
    using sync_vars_key_count [OF h1 h2 h3, of "''SUPABASE_URL=old''"] .
qed

text \<open>
  C3 as stated fails when the text already has two lines of a key: both are replaced,
  none is removed.
\<close>

theorem sync_vars_key_count_counterexample:
  "sync_vars [(''SUPABASE_URL'', ''new'')] (''SUPABASE_URL=old1'' @ LF # ''SUPABASE_URL=old2'') =
     Inr (''SUPABASE_URL=new'' @ LF # ''SUPABASE_URL=new'') \<and>
   key_count ''SUPABASE_URL'' (''SUPABASE_URL=new'' @ LF # ''SUPABASE_URL=new'') = 2"
  by (simp add: count_eval sync_eval)

section \<open>The frame of a pass\<close>

lemma framed_refl: "framed P ls ls"
proof (induction ls)
  case Nil
  show ?case by (rule framed.appended)
next
  case (Cons l ls)
  show ?case
  proof (cases "P l")
    case True
    then have "framed P (l # ls) ([l] @ ls)" using Cons by (rule framed.replaced)
    then show ?thesis by simp
  next
    case False
    then show ?thesis using Cons by (rule framed.kept)
  qed
qed

lemma framed_append: "framed P ls cur \<Longrightarrow> framed P ls (cur @ app)"
proof (induction rule: framed.induct)
  case (appended app')
  show ?case by (rule framed.appended)
next
  case (kept l ls ls')
  then show ?case by (simp add: framed.kept)
next
  case (replaced l ls ls' r)
  then have "framed P (l # ls) (r @ (ls' @ app))" by (intro framed.replaced)
  then show ?case by simp
qed

lemma framed_map:
  assumes "framed P ls cur" "\<And>l. \<not> P l \<Longrightarrow> h l = [l]"
  shows "framed P ls (concat (map h cur))"
  using assms(1)
proof (induction rule: framed.induct)
  case (appended app)
  show ?case by (rule framed.appended)
next
  case (kept l ls ls')
  then show ?case by (simp add: assms(2) framed.kept)
next
  case (replaced l ls ls' r)
  then have "framed P (l # ls) (concat (map h r) @ concat (map h ls'))"
    by (intro framed.replaced)
  then show ?case by simp
qed

lemma split_lines_pattern_sub:
  assumes "pattern_sub k r t = Inr t'"
  shows "\<exists>h. (\<forall>l. \<not> key_line k l \<longrightarrow> h l = [l]) \<and> split_lines t' = concat (map h (split_lines t))"
proof -
  obtain tpl where tpl: "parse_template r = Inr tpl"
    using assms by (cases "parse_template r") (simp_all add: pattern_sub_def)
  define f where "f = (\<lambda>l. if key_line k l then expand tpl l else l)"
  define h where "h = (\<lambda>l. if key_line k l then split_lines (expand tpl l) else [l])"
  have t': "t' = join_lines (map f (split_lines t))"
    using assms tpl by (simp add: pattern_sub_def f_def)
  have eq: "split_lines (f l) = h l" if "l \<in> set (split_lines t)" for l
  proof (cases "key_line k l")
    case True
    then show ?thesis by (simp add: f_def h_def)
  next
    case False
    have "LF \<notin> set l" using that by (rule split_lines_no_LF)
    then show ?thesis using False by (simp add: f_def h_def split_lines_plain)
  qed
  have "split_lines t' = concat (map split_lines (map f (split_lines t)))"
    unfolding t' by (rule split_join_lines_concat) simp
  also have "map split_lines (map f (split_lines t)) = map (\<lambda>l. split_lines (f l)) (split_lines t)"
    by simp
  also have "\<dots> = map h (split_lines t)"
    using eq by (induction "split_lines t") (simp_all add: map_eq_conv)
  finally have "split_lines t' = concat (map h (split_lines t))" .
  moreover have "\<forall>l. \<not> key_line k l \<longrightarrow> h l = [l]" by (simp add: h_def)
  ultimately show ?thesis by blast
qed

lemma sync_key_framed:
  assumes "sync_key k v t = Inr t'" "framed P ls0 (split_lines t)" "\<And>l. key_line k l \<Longrightarrow> P l"
  shows "framed P ls0 (split_lines t')"
proof (cases "pattern_search k t")
  case True
  then have "pattern_sub k (env_line k v) t = Inr t'"
    using assms(1) by (simp add: sync_key_def)
  then obtain h where h: "\<forall>l. \<not> key_line k l \<longrightarrow> h l = [l]"
    "split_lines t' = concat (map h (split_lines t))"
    using split_lines_pattern_sub by blast
  have "\<And>l. \<not> P l \<Longrightarrow> h l = [l]" using h(1) assms(3) by blast
  with assms(2) show ?thesis unfolding h(2) by (rule framed_map)
next
  case False
  then have "t' = t @ LF # env_line k v"
    using assms(1) by (simp add: sync_key_def)
  then have "split_lines t' = split_lines t @ split_lines (env_line k v)"
    by (simp add: split_lines_append_LF)
  with assms(2) show ?thesis by (simp add: framed_append)
qed

lemma sync_vars_framed:
  assumes "sync_vars kvs t = Inr t'" "framed P ls0 (split_lines t)"
    "\<And>kv l. kv \<in> set kvs \<Longrightarrow> key_line (fst kv) l \<Longrightarrow> P l"
  shows "framed P ls0 (split_lines t')"
  using assms
proof (induction kvs arbitrary: t)
  case Nil
  then show ?case by simp
next
  case (Cons kv kvs)
  obtain k v where kv: "kv = (k, v)" by (cases kv)
  obtain t1 where t1: "sync_key k v t = Inr t1" "sync_vars kvs t1 = Inr t'"
    using Cons.prems(1) kv by (auto split: sum.splits)
  have "framed P ls0 (split_lines t1)"
    using t1(1) Cons.prems(2)
  proof (rule sync_key_framed)
    fix l assume "key_line k l"
    then show "P l" using Cons.prems(3) [of kv l] kv by simp
  qed
  with t1(2) show ?case
  proof (rule Cons.IH)
    fix kv' l assume "kv' \<in> set kvs" "key_line (fst kv') l"
    then show "P l" using Cons.prems(3) [of kv' l] by simp
  qed
qed

lemma synced_line_Nil [simp]: "synced_line [] l = l"
  by (simp add: synced_line_def)

lemma synced_line_Cons:
  "synced_line ((k, v) # kvs) l = (if key_line k l then env_line k v else synced_line kvs l)"
  by (simp add: synced_line_def)

lemma synced_line_own:
  assumes "env_key k" "\<forall>kv\<in>set kvs. env_key (fst kv)" "k \<notin> fst ` set kvs"
  shows "synced_line kvs (env_line k v) = env_line k v"
proof -
  have "\<And>kv. kv \<in> set kvs \<Longrightarrow> \<not> key_line (fst kv) (env_line k v)"
  proof -
    fix kv assume kv: "kv \<in> set kvs"
    then have "env_key (fst kv)" "fst kv \<noteq> k" using assms(2,3) by auto
    then show "\<not> key_line (fst kv) (env_line k v)"
      using assms(1) by (intro key_line_other)
  qed
  then have "find (\<lambda>kv. key_line (fst kv) (env_line k v)) kvs = None"
    unfolding find_None_iff by blast
  then show ?thesis by (simp add: synced_line_def)
qed

lemma sync_lines_shape:
  "\<exists>app. sync_lines k v ls = map (\<lambda>l. if key_line k l then env_line k v else l) ls @ app \<and>
         set app \<subseteq> {env_line k v}"
proof (cases "list_ex (key_line k) ls")
  case True
  then have "sync_lines k v ls = map (\<lambda>l. if key_line k l then env_line k v else l) ls @ []"
    by (simp add: sync_lines_def)
  then show ?thesis by (intro exI [of _ "[]"]) simp
next
  case False
  then have "\<forall>l\<in>set ls. \<not> key_line k l" by (simp add: list_ex_iff)
  then have "map (\<lambda>l. if key_line k l then env_line k v else l) ls = ls"
    by (intro map_idI) simp
  then have "sync_lines k v ls =
      map (\<lambda>l. if key_line k l then env_line k v else l) ls @ [env_line k v]"
    using False by (simp add: sync_lines_def)
  then show ?thesis by (intro exI [of _ "[env_line k v]"]) simp
qed

lemma sync_vars_lines_shape:
  assumes "\<forall>kv\<in>set kvs. env_key (fst kv)" "distinct (map fst kvs)"
  shows "\<exists>app. sync_vars_lines kvs ls = map (synced_line kvs) ls @ app \<and>
               set app \<subseteq> (\<lambda>kv. env_line (fst kv) (snd kv)) ` set kvs"
  using assms
proof (induction kvs arbitrary: ls)
  case Nil
  then show ?case by simp
next
  case (Cons kv kvs)
  obtain k v where kv: "kv = (k, v)" by (cases kv)
  have k: "env_key k" "k \<notin> fst ` set kvs" using Cons.prems kv by auto
  have rest: "\<forall>kv\<in>set kvs. env_key (fst kv)" "distinct (map fst kvs)"
    using Cons.prems by auto
  let ?G = "\<lambda>l. if key_line k l then env_line k v else l"
  obtain app1 where app1: "sync_lines k v ls = map ?G ls @ app1" "set app1 \<subseteq> {env_line k v}"
    using sync_lines_shape by blast
  obtain app2 where app2:
    "sync_vars_lines kvs (map ?G ls @ app1) = map (synced_line kvs) (map ?G ls @ app1) @ app2"
    "set app2 \<subseteq> (\<lambda>kv. env_line (fst kv) (snd kv)) ` set kvs"
    using Cons.IH [OF rest] by blast
  have own: "synced_line kvs (env_line k v) = env_line k v"
    using k(1) rest(1) k(2) by (rule synced_line_own)
  have comp: "synced_line kvs (?G l) = synced_line (kv # kvs) l" for l
    by (simp add: kv synced_line_Cons own)
  have "map (synced_line kvs) app1 = app1"
    using app1(2) own by (intro map_idI) auto
  then have "sync_vars_lines (kv # kvs) ls = map (synced_line (kv # kvs)) ls @ (app1 @ app2)"
    using app1(1) app2(1) comp by (simp add: kv)
  moreover have "set (app1 @ app2) \<subseteq> (\<lambda>kv. env_line (fst kv) (snd kv)) ` set (kv # kvs)"
    using app1(2) app2(2) kv by auto
  ultimately show ?case by blast
qed

text \<open>
  C10. For a mapping whose keys are made of letters, digits and underscores, a pass that
  returns leaves every line that begins with \<open>KEY=\<close> for no key of the mapping as it is
  and in its place among the others; what changes is the replacement of matching
  lines, where they stand, and text appended after the last line (\<open>framed\<close>). When the
  values hold no line feed and no backslash and the keys are distinct, the lines of the
  result are, position by position, the original lines, each matching line replaced by
  \<open>KEY=value\<close> of its key, followed by appended lines that are each \<open>KEY=value\<close> of the
  mapping. (A pass that raises writes nothing.)
\<close>

theorem sync_vars_frame:
  assumes "\<forall>kv\<in>set kvs. env_key (fst kv)" "sync_vars kvs t = Inr t'"
  shows "framed (any_key_line kvs) (split_lines t) (split_lines t') \<and>
         ((\<forall>kv\<in>set kvs. env_value (snd kv)) \<and> distinct (map fst kvs) \<longrightarrow>
          (\<exists>app. split_lines t' = map (synced_line kvs) (split_lines t) @ app \<and>
                 set app \<subseteq> (\<lambda>kv. env_line (fst kv) (snd kv)) ` set kvs))"
proof (intro conjI impI)
  show "framed (any_key_line kvs) (split_lines t) (split_lines t')"
    using assms(2) framed_refl
  proof (rule sync_vars_framed)
    fix kv l assume "kv \<in> set kvs" "key_line (fst kv) l"
    then show "any_key_line kvs l" by (auto simp: any_key_line_def list_ex_iff)
  qed
next
  assume plain: "(\<forall>kv\<in>set kvs. env_value (snd kv)) \<and> distinct (map fst kvs)"
  then have ok: "\<forall>kv\<in>set kvs. env_key (fst kv) \<and> env_value (snd kv)"
    using assms(1) by simp
  have "t' = join_lines (sync_vars_lines kvs (split_lines t))"
    using assms(2) sync_vars_lines_eq [OF ok, of t] by simp
  then have "split_lines t' = sync_vars_lines kvs (split_lines t)"
    using split_lines_sync_vars [OF ok] by simp
  then show "\<exists>app. split_lines t' = map (synced_line kvs) (split_lines t) @ app \<and>
                 set app \<subseteq> (\<lambda>kv. env_line (fst kv) (snd kv)) ` set kvs"
    using sync_vars_lines_shape [OF assms(1), of "split_lines t"] plain by simp
qed

theorem sync_vars_frame_witness:
  "framed (any_key_line [(''SUPABASE_URL'', ''new''), (''SUPABASE_ANON_KEY'', ''k1'')])
     (split_lines (''# local'' @ LF # ''SUPABASE_URL=old'' @ LF # ''PORT=3000''))
     (split_lines (''# local'' @ LF # ''SUPABASE_URL=new'' @ LF # ''PORT=3000'' @ LF # ''SUPABASE_ANON_KEY=k1'')) \<and>
   (\<exists>app. split_lines (''# local'' @ LF # ''SUPABASE_URL=new'' @ LF # ''PORT=3000'' @ LF # ''SUPABASE_ANON_KEY=k1'') =
          map (synced_line [(''SUPABASE_URL'', ''new''), (''SUPABASE_ANON_KEY'', ''k1'')])
            (split_lines (''# local'' @ LF # ''SUPABASE_URL=old'' @ LF # ''PORT=3000'')) @ app \<and>
          set app \<subseteq> (\<lambda>kv. env_line (fst kv) (snd kv)) `
            set [(''SUPABASE_URL'', ''new''), (''SUPABASE_ANON_KEY'', ''k1'')])"
proof -
  let ?kvs = "[(''SUPABASE_URL'', ''new''), (''SUPABASE_ANON_KEY'', ''k1'')]"
  have h1: "\<forall>kv\<in>set ?kvs. env_key (fst kv)" by code_simp
  have h2: "sync_vars ?kvs (''# local'' @ LF # ''SUPABASE_URL=old'' @ LF # ''PORT=3000'') =
            Inr (''# local'' @ LF # ''SUPABASE_URL=new'' @ LF # ''PORT=3000'' @ LF # ''SUPABASE_ANON_KEY=k1'')"
    by (simp add: sync_eval)
  have h3: "(\<forall>kv\<in>set ?kvs. env_value (snd kv)) \<and> distinct (map fst ?kvs)"
    by (simp add: env_value_def)
  show ?thesis
    using sync_vars_frame [OF h1 h2] h3 by blast
qed

section \<open>Reading the environment file: the last entry of a key\<close>

lemma last_entry_Nil [simp]: "last_entry [] key = None"
  by (simp add: last_entry_def)

lemma last_entry_Cons:
  "last_entry ((k, v) # es) key =
     (case last_entry es key of None \<Rightarrow> (if k = key then Some v else None) | Some v' \<Rightarrow> Some v')"
  by (simp add: last_entry_def split: list.splits)

lemma read_env_loop_last_entry:
  "read_env_loop raws m key =
     (case last_entry (List.map_filter env_entry raws) key of None \<Rightarrow> m key | Some v \<Rightarrow> Some v)"
proof (induction raws arbitrary: m)
  case Nil
  show ?case by (simp add: map_filter_simps)
next
  case (Cons raw raws)
  show ?case
  proof (cases "env_entry raw")
    case None
    then show ?thesis by (simp add: map_filter_simps Cons.IH)
  next
    case (Some kv)
    obtain k v where kv: "kv = (k, v)" by (cases kv)
    show ?thesis
      by (simp add: Some kv map_filter_simps Cons.IH last_entry_Cons split: option.splits)
  qed
qed

lemma split_first_eq_iff:
  assumes "CHR ''='' \<in> set s"
  shows "split_first_eq s = (key, val) \<longleftrightarrow> key @ ''='' @ val = s \<and> CHR ''='' \<notin> set key"
proof
  assume sp: "split_first_eq s = (key, val)"
  let ?P = "\<lambda>c. c \<noteq> CHR ''=''"
  have ne: "dropWhile ?P s \<noteq> []" using assms by simp
  then have hd: "hd (dropWhile ?P s) = CHR ''=''" using hd_dropWhile [of ?P s] by simp
  have "s = takeWhile ?P s @ dropWhile ?P s" by simp
  also have "dropWhile ?P s = CHR ''='' # tl (dropWhile ?P s)"
    using ne hd by (cases "dropWhile ?P s") simp_all
  finally have "s = key @ ''='' @ val"
    using sp by (simp add: split_first_eq_def)
  moreover have "CHR ''='' \<notin> set key"
    using sp set_takeWhileD [of "CHR ''=''" ?P s] by (auto simp: split_first_eq_def)
  ultimately show "key @ ''='' @ val = s \<and> CHR ''='' \<notin> set key" by simp
next
  assume "key @ ''='' @ val = s \<and> CHR ''='' \<notin> set key"
  then have s: "s = key @ CHR ''='' # val" and k: "CHR ''='' \<notin> set key" by auto
  have "takeWhile (\<lambda>c. c \<noteq> CHR ''='') s = key"
    unfolding s using k by (subst takeWhile_append2) auto
  moreover have "dropWhile (\<lambda>c. c \<noteq> CHR ''='') s = CHR ''='' # val"
    unfolding s using k by (subst dropWhile_append2) auto
  ultimately show "split_first_eq s = (key, val)"
    by (simp add: split_first_eq_def)
qed

text \<open>
  C9. \<open>read_env_file\<close> (when \<open>.env\<close> exists; else it leaves with exit code 1) returns the
  mapping that gives each key the value of its last entry, the entries being those of
  the lines in order (\<open>env_entries\<close>). A line gives the entry \<open>(key, val)\<close> exactly when,
  stripped of white space, it is not empty, does not start with \<open>#\<close>, holds an \<open>=\<close>, and is
  \<open>key\<close>, \<open>=\<close>, \<open>val\<close> with no \<open>=\<close> in \<open>key\<close>: it is split at its first \<open>=\<close>, and \<open>val\<close> may
  hold further ones.
\<close>

theorem read_env_file_entries:
  "read_env_file st =
     (if path_exists st ''.env''
      then Return (last_entry (env_entries (read_file st ''.env''))) else Exit 1) \<and>
   (env_entry raw = Some (key, val) \<longleftrightarrow>
      strip raw \<noteq> [] \<and> \<not> startswith (strip raw) ''#'' \<and> CHR ''='' \<in> set (strip raw) \<and>
      key @ ''='' @ val = strip raw \<and> CHR ''='' \<notin> set key)"
proof
  have "read_env_loop (readlines content) Map.empty = last_entry (env_entries content)" for content
    by (rule ext) (simp add: read_env_loop_last_entry env_entries_def split: option.splits)
  then show "read_env_file st =
     (if path_exists st ''.env''
      then Return (last_entry (env_entries (read_file st ''.env''))) else Exit 1)"
    by (simp add: read_env_file_def)
next
  show "env_entry raw = Some (key, val) \<longleftrightarrow>
      strip raw \<noteq> [] \<and> \<not> startswith (strip raw) ''#'' \<and> CHR ''='' \<in> set (strip raw) \<and>
      key @ ''='' @ val = strip raw \<and> CHR ''='' \<notin> set key"
  proof (cases "strip raw \<noteq> [] \<and> \<not> startswith (strip raw) ''#'' \<and> CHR ''='' \<in> set (strip raw)")
    case True
    then have "env_entry raw = Some (split_first_eq (strip raw))"
      by (simp add: env_entry_def Let_def)
    then show ?thesis
      using True split_first_eq_iff [of "strip raw" key val] by simp
  next
    case False
    then have "env_entry raw = None"
      by (auto simp: env_entry_def Let_def)
    then show ?thesis using False by auto
  qed
qed

section \<open>The password generators\<close>

text \<open>
  Both generators return \<open>length\<close> characters (none for a negative length), each from
  their alphabet, which holds ASCII letters, digits and punctuation only. The alphabet
  of create-project.py holds none of the characters its comment names as unsafe.
\<close>

lemma choice_in: "alphabet \<noteq> [] \<Longrightarrow> choice r alphabet \<in> set alphabet"
  by (simp add: choice_def)

lemma alphabet_setup_length: "length alphabet_setup = 91"
  by (simp add: alphabet_setup_def ascii_letters_def ascii_lowercase_def ascii_uppercase_def digits_def)

lemma safe_alphabet_length: "length safe_alphabet = 76"
  by (simp add: safe_alphabet_def ascii_letters_def ascii_lowercase_def ascii_uppercase_def digits_def)

lemma generate_secure_password_length:
  "length (generate_secure_password_setup draw n) = nat n"
  "length (generate_secure_password_create draw n) = nat n"
  by (simp_all add: generate_secure_password_setup_def generate_secure_password_create_def)

lemma generate_secure_password_chars:
  "set (generate_secure_password_setup draw n) \<subseteq> set alphabet_setup"
  "set (generate_secure_password_create draw n) \<subseteq> set safe_alphabet"
proof -
  have "alphabet_setup \<noteq> []" "safe_alphabet \<noteq> []"
    using alphabet_setup_length safe_alphabet_length by auto
  then show "set (generate_secure_password_setup draw n) \<subseteq> set alphabet_setup"
    "set (generate_secure_password_create draw n) \<subseteq> set safe_alphabet"
    by (auto simp: generate_secure_password_setup_def generate_secure_password_create_def choice_in)
qed

lemma alphabets_ascii:
  "list_all (\<lambda>c. c \<in> set (ascii_letters @ digits @ punctuation)) alphabet_setup"
  "list_all (\<lambda>c. c \<in> set (ascii_letters @ digits @ punctuation)) safe_alphabet"
  by code_simp+

lemma safe_alphabet_no_shell_special:
  "list_all (\<lambda>c. c \<notin> set shell_special) safe_alphabet"
  by code_simp

text \<open>
  C6. The claim holds of the generator of create-project.py (lemmas above). The one of
  setup.py breaks it: its alphabet holds \<open>!\<close>, \<open>$\<close>, \<open>&\<close>, \<open>(\<close>, \<open>)\<close>, \<open>*\<close>, \<open>;\<close>, \<open><\<close>, \<open>>\<close>, \<open>?\<close>,
  \<open>[\<close>, \<open>]\<close>, backquote and \<open>|\<close>, which the comment in create-project.py lists as characters to
  avoid in command-line arguments. When every draw gives the index 62, the password of
  setup.py is sixteen times \<open>!\<close>.
\<close>

theorem generate_secure_password_setup_shell_special:
  "generate_secure_password_setup (\<lambda>i. 62) 16 = ''!!!!!!!!!!!!!!!!'' \<and>
   CHR ''!'' \<in> set shell_special \<and>
   CHR ''!'' \<notin> set safe_alphabet"
  by code_simp

section \<open>Attempts that fail\<close>

lemma upt_1_4: "[1..<4] = [1, 2, 3::nat]" "[Suc 0..<4] = [1, 2, 3::nat]"
  by code_simp+

lemma upt_1_6: "[1..<6] = [1, 2, 3, 4, 5::nat]" "[Suc 0..<6] = [1, 2, 3, 4, 5::nat]"
  by code_simp+

lemmas run_eval = and_then_def run_command_def py_sleep_def Let_def

lemma password_of_zero_draws:
  "generate_secure_password_setup (\<lambda>i. 0) 16 = ''aaaaaaaaaaaaaaaa''"
  by code_simp

lemma slept_run_command [simp]: "slept (snd (run_command w cmd check cap st)) = slept st"
  by (simp add: run_command_def Let_def)

lemma get_api_keys_slept_loop:
  "slept (snd (get_api_keys w pid st)) = slept (snd (get_api_keys_loop w pid [1..<6] st))"
  by (cases "get_api_keys_loop w pid [1..<6] st")
    (auto simp: get_api_keys_def and_then_def run_command_def Let_def
      split: outcome.splits option.splits)

text \<open>
  Each retrying operation, followed attempt by attempt: a failed attempt runs one command
  and sleeps, and the operation goes on with the attempts that are left.
\<close>

lemma check_project_exists_try_None:
  "check_project_exists_try w name out = Return None \<longleftrightarrow> loads w out = None"
  by (auto simp: check_project_exists_try_def split: option.splits sum.splits)

lemma check_project_exists_loop_step:
  assumes "check_attempt_fails w (respond w (ncalls st) projects_list_json)"
  shows "check_project_exists_loop w name (a # as) st =
         check_project_exists_loop w name as (py_sleep 1 (st\<lparr>ncalls := Suc (ncalls st)\<rparr>))"
proof -
  let ?r = "respond w (ncalls st) projects_list_json"
  have inner: "(if fst ?r = 0 \<and> snd ?r \<noteq> [] then check_project_exists_try w name (snd ?r)
                else Return None) = Return None"
    using assms by (auto simp: check_attempt_fails_def check_project_exists_try_None)
  show ?thesis
    by (simp add: run_command_def and_then_def Let_def inner)
qed

lemma check_project_exists_loop_exhausted:
  assumes "\<forall>i<length as. check_attempt_fails w (respond w (ncalls st + i) projects_list_json)"
  shows "check_project_exists_loop w name as st =
         (Return False, st\<lparr>ncalls := ncalls st + length as,
                            slept := slept st @ replicate (length as) 1\<rparr>)"
  using assms
proof (induction as arbitrary: st)
  case Nil
  show ?case by simp
next
  case (Cons a as)
  let ?st1 = "py_sleep 1 (st\<lparr>ncalls := Suc (ncalls st)\<rparr>)"
  have here: "check_attempt_fails w (respond w (ncalls st) projects_list_json)"
    using Cons.prems by force
  have "\<forall>i<length as. check_attempt_fails w (respond w (ncalls ?st1 + i) projects_list_json)"
    using Cons.prems by (auto simp: py_sleep_def)
  then have IH: "check_project_exists_loop w name as ?st1 =
     (Return False, ?st1\<lparr>ncalls := ncalls ?st1 + length as,
                          slept := slept ?st1 @ replicate (length as) 1\<rparr>)"
    by (rule Cons.IH)
  show ?case
    unfolding check_project_exists_loop_step [OF here] IH
    by (simp add: py_sleep_def)
qed

lemma find_project_id_truthy:
  "find_project_id name ps = Inr (Some pid) \<Longrightarrow> truthy pid"
  by (induction ps) (auto split: sum.splits if_splits)

lemma get_project_id_try_truthy:
  "get_project_id_try w name out = Return (Some pid) \<Longrightarrow> truthy pid"
  by (auto simp: get_project_id_try_def find_project_id_truthy split: option.splits sum.splits)

lemma get_project_id_try_no_exit: "get_project_id_try w name out \<noteq> Exit c"
  by (auto simp: get_project_id_try_def split: option.splits sum.splits)

lemma find_project_id_not_listed:
  "list_all (\<lambda>p. case p of JObj kvs \<Rightarrow> map_of kvs ''name'' \<noteq> Some (JStr name) | _ \<Rightarrow> False) ps
   \<Longrightarrow> find_project_id name ps = Inr None"
proof (induction ps)
  case Nil
  show ?case by simp
next
  case (Cons p ps)
  then obtain kvs where p: "p = JObj kvs" "map_of kvs ''name'' \<noteq> Some (JStr name)"
    by (cases p) auto
  then show ?case using Cons by (auto split: option.splits)
qed

lemma project_id_attempt_fails_not_listed:
  assumes "loads w (snd r) = Some j" "lists_no_project name j"
  shows "project_id_attempt_fails w name r"
proof -
  obtain ps where j: "j = JArr ps"
    using assms(2) by (cases j) (simp_all add: lists_no_project_def)
  then have "find_project_id name ps = Inr None"
    using assms(2) by (intro find_project_id_not_listed) (simp add: lists_no_project_def)
  then show ?thesis
    using assms(1) j by (simp add: project_id_attempt_fails_def get_project_id_try_def)
qed

lemma get_project_id_loop_step:
  assumes "project_id_attempt_fails w name (respond w (ncalls st) projects_list_json)"
  shows "get_project_id_loop w name (a # as) st =
         get_project_id_loop w name as (py_sleep 10 (st\<lparr>ncalls := Suc (ncalls st)\<rparr>))"
proof -
  let ?r = "respond w (ncalls st) projects_list_json"
  have inner: "(if fst ?r = 0 \<and> snd ?r \<noteq> [] then get_project_id_try w name (snd ?r)
                else Return None) = Return None"
    using assms by (auto simp: project_id_attempt_fails_def)
  show ?thesis
    by (simp add: run_command_def and_then_def Let_def inner)
qed

lemma get_project_id_loop_stop:
  assumes "\<not> project_id_attempt_fails w name (respond w (ncalls st) projects_list_json)"
  shows "snd (get_project_id_loop w name (a # as) st) = st\<lparr>ncalls := Suc (ncalls st)\<rparr>"
    and "fst (get_project_id_loop w name (a # as) st) \<noteq> Return JNull"
proof -
  let ?r = "respond w (ncalls st) projects_list_json"
  let ?t = "get_project_id_try w name (snd ?r)"
  have c: "fst ?r = 0" "snd ?r \<noteq> []" "?t \<noteq> Return None"
    using assms by (auto simp: project_id_attempt_fails_def)
  have loop: "get_project_id_loop w name (a # as) st =
      (case ?t of
         Return (Some project_id) \<Rightarrow> (Return project_id, st\<lparr>ncalls := Suc (ncalls st)\<rparr>)
       | Return None \<Rightarrow> get_project_id_loop w name as (py_sleep 10 (st\<lparr>ncalls := Suc (ncalls st)\<rparr>))
       | Exit c \<Rightarrow> (Exit c, st\<lparr>ncalls := Suc (ncalls st)\<rparr>)
       | Raise e \<Rightarrow> (Raise e, st\<lparr>ncalls := Suc (ncalls st)\<rparr>))"
    using c(1,2) by (simp add: run_command_def and_then_def Let_def)
  show "snd (get_project_id_loop w name (a # as) st) = st\<lparr>ncalls := Suc (ncalls st)\<rparr>"
    unfolding loop using c(3) by (cases ?t) (auto split: option.splits)
  show "fst (get_project_id_loop w name (a # as) st) \<noteq> Return JNull"
    unfolding loop using c(3) get_project_id_try_truthy [of w name "snd ?r" JNull]
    by (cases ?t) (auto split: option.splits)
qed

lemma get_project_id_loop_run:
  assumes "j \<le> length as"
    "\<forall>i<j. project_id_attempt_fails w name (respond w (ncalls st + i) projects_list_json)"
    "j < length as \<longrightarrow>
       \<not> project_id_attempt_fails w name (respond w (ncalls st + j) projects_list_json)"
  shows "snd (get_project_id_loop w name as st) =
           st\<lparr>ncalls := ncalls st + (if j < length as then Suc j else j),
              slept := slept st @ replicate j 10\<rparr> \<and>
         (fst (get_project_id_loop w name as st) = Return JNull \<longleftrightarrow> j = length as)"
  using assms
proof (induction as arbitrary: st j)
  case Nil
  then show ?case by simp
next
  case (Cons a as)
  let ?r = "respond w (ncalls st) projects_list_json"
  let ?st0 = "st\<lparr>ncalls := Suc (ncalls st)\<rparr>"
  show ?case
  proof (cases j)
    case 0
    then have nf: "\<not> project_id_attempt_fails w name ?r"
      using Cons.prems(3) by simp
    show ?thesis
      using get_project_id_loop_stop [OF nf, of a as] 0 by simp
  next
    case (Suc j')
    let ?st1 = "py_sleep 10 ?st0"
    have here: "project_id_attempt_fails w name ?r"
      using Cons.prems(2) Suc by force
    have p1: "j' \<le> length as" using Cons.prems(1) Suc by simp
    have p2: "\<forall>i<j'. project_id_attempt_fails w name (respond w (ncalls ?st1 + i) projects_list_json)"
      using Cons.prems(2) Suc by (auto simp: py_sleep_def)
    have p3: "j' < length as \<longrightarrow>
       \<not> project_id_attempt_fails w name (respond w (ncalls ?st1 + j') projects_list_json)"
      using Cons.prems(3) Suc by (auto simp: py_sleep_def)
    have IH: "snd (get_project_id_loop w name as ?st1) =
           ?st1\<lparr>ncalls := ncalls ?st1 + (if j' < length as then Suc j' else j'),
              slept := slept ?st1 @ replicate j' 10\<rparr> \<and>
         (fst (get_project_id_loop w name as ?st1) = Return JNull \<longleftrightarrow> j' = length as)"
      using p1 p2 p3 by (rule Cons.IH)
    have "snd (get_project_id_loop w name as ?st1) =
           st\<lparr>ncalls := ncalls st + (if j < length (a # as) then Suc j else j),
              slept := slept st @ replicate j 10\<rparr>"
      using IH Suc by (simp add: py_sleep_def)
    moreover have "fst (get_project_id_loop w name as ?st1) = Return JNull \<longleftrightarrow> j = length (a # as)"
      using IH Suc by simp
    ultimately show ?thesis
      unfolding get_project_id_loop_step [OF here] by simp
  qed
qed

lemma get_project_id_loop_outcome:
  "(\<forall>c. fst (get_project_id_loop w name as st) \<noteq> Exit c) \<and>
   (\<forall>pid. fst (get_project_id_loop w name as st) = Return pid \<longrightarrow> pid = JNull \<or> truthy pid)"
proof (induction as arbitrary: st)
  case Nil
  show ?case by simp
next
  case (Cons a as)
  show ?case
    using Cons.IH get_project_id_try_truthy [of w name] get_project_id_try_no_exit [of w name]
    by (auto simp: run_command_def and_then_def Let_def split: outcome.splits option.splits if_splits)
qed

lemma get_api_keys_try_no_exit: "get_api_keys_try w out \<noteq> Exit c"
  by (auto simp: get_api_keys_try_def split: option.splits sum.splits prod.splits)

lemma get_api_keys_attempt_later:
  assumes "a \<noteq> 1"
  shows "get_api_keys_attempt w pid a st =
     (let r = respond w (ncalls st) (api_keys_json_cmd pid); st1 = st\<lparr>ncalls := Suc (ncalls st)\<rparr>
      in case (if fst r = 0 \<and> snd r \<noteq> [] then get_api_keys_try w (snd r) else Return None) of
           Return (Some keys) \<Rightarrow> (Return (Some keys), st1)
         | Return None \<Rightarrow> (Return None, py_sleep (a * 5) st1)
         | Exit c \<Rightarrow> (Exit c, st1)
         | Raise e \<Rightarrow> (Raise e, st1))"
proof (cases "fst (respond w (ncalls st) (api_keys_json_cmd pid)) = 0 \<and>
              snd (respond w (ncalls st) (api_keys_json_cmd pid)) \<noteq> []")
  case True
  then show ?thesis
    using assms
    by (simp add: get_api_keys_attempt_def run_command_def and_then_def Let_def
        split: outcome.splits option.splits)
next
  case False
  then show ?thesis
    using assms by (auto simp: get_api_keys_attempt_def run_command_def and_then_def Let_def)
qed

lemma get_api_keys_attempt_first:
  "get_api_keys_attempt w pid 1 st =
     (let r = respond w (Suc (ncalls st)) (api_keys_json_cmd pid);
          st1 = st\<lparr>ncalls := Suc (Suc (ncalls st))\<rparr>
      in case (if fst r = 0 \<and> snd r \<noteq> [] then get_api_keys_try w (snd r) else Return None) of
           Return (Some keys) \<Rightarrow> (Return (Some keys), st1)
         | Return None \<Rightarrow> (Return None, py_sleep 5 st1)
         | Exit c \<Rightarrow> (Exit c, st1)
         | Raise e \<Rightarrow> (Raise e, st1))"
proof (cases "fst (respond w (Suc (ncalls st)) (api_keys_json_cmd pid)) = 0 \<and>
              snd (respond w (Suc (ncalls st)) (api_keys_json_cmd pid)) \<noteq> []")
  case True
  then show ?thesis
    by (simp add: get_api_keys_attempt_def run_command_def and_then_def Let_def
        split: outcome.splits option.splits)
next
  case False
  then show ?thesis
    by (auto simp: get_api_keys_attempt_def run_command_def and_then_def Let_def)
qed

lemma keys_inner_fails:
  assumes "keys_attempt_fails w r"
  shows "(if fst r = 0 \<and> snd r \<noteq> [] then get_api_keys_try w (snd r) else Return None) = Return None"
  using assms by (auto simp: keys_attempt_fails_def)

lemma keys_inner_not_fails:
  assumes "\<not> keys_attempt_fails w r"
  shows "(if fst r = 0 \<and> snd r \<noteq> [] then get_api_keys_try w (snd r) else Return None) =
         get_api_keys_try w (snd r)" "get_api_keys_try w (snd r) \<noteq> Return None"
  using assms by (auto simp: keys_attempt_fails_def)

lemma get_api_keys_loop_step:
  assumes "a \<noteq> 1" "keys_attempt_fails w (respond w (ncalls st) (api_keys_json_cmd pid))"
  shows "get_api_keys_loop w pid (a # as) st =
         get_api_keys_loop w pid as (py_sleep (a * 5) (st\<lparr>ncalls := Suc (ncalls st)\<rparr>))"
  by (simp add: get_api_keys_attempt_later [OF assms(1)] keys_inner_fails [OF assms(2)]
      and_then_def Let_def)

lemma get_api_keys_loop_stop:
  assumes "a \<noteq> 1" "\<not> keys_attempt_fails w (respond w (ncalls st) (api_keys_json_cmd pid))"
  shows "snd (get_api_keys_loop w pid (a # as) st) = st\<lparr>ncalls := Suc (ncalls st)\<rparr>"
    and "fst (get_api_keys_loop w pid (a # as) st) \<noteq> Return None"
proof -
  let ?r = "respond w (ncalls st) (api_keys_json_cmd pid)"
  let ?t = "get_api_keys_try w (snd ?r)"
  have loop: "get_api_keys_loop w pid (a # as) st =
     (case ?t of
        Return (Some keys) \<Rightarrow> (Return (Some keys), st\<lparr>ncalls := Suc (ncalls st)\<rparr>)
      | Return None \<Rightarrow> get_api_keys_loop w pid as (py_sleep (a * 5) (st\<lparr>ncalls := Suc (ncalls st)\<rparr>))
      | Exit c \<Rightarrow> (Exit c, st\<lparr>ncalls := Suc (ncalls st)\<rparr>)
      | Raise e \<Rightarrow> (Raise e, st\<lparr>ncalls := Suc (ncalls st)\<rparr>))"
    by (simp add: get_api_keys_attempt_later [OF assms(1)] keys_inner_not_fails(1) [OF assms(2)]
        and_then_def Let_def split: outcome.splits option.splits)
  show "snd (get_api_keys_loop w pid (a # as) st) = st\<lparr>ncalls := Suc (ncalls st)\<rparr>"
    unfolding loop using keys_inner_not_fails(2) [OF assms(2)]
    by (cases ?t) (auto split: option.splits)
  show "fst (get_api_keys_loop w pid (a # as) st) \<noteq> Return None"
    unfolding loop using keys_inner_not_fails(2) [OF assms(2)]
    by (cases ?t) (auto split: option.splits)
qed

lemma get_api_keys_loop_run:
  assumes "1 \<notin> set as" "j \<le> length as"
    "\<forall>i<j. keys_attempt_fails w (respond w (ncalls st + i) (api_keys_json_cmd pid))"
    "j < length as \<longrightarrow>
       \<not> keys_attempt_fails w (respond w (ncalls st + j) (api_keys_json_cmd pid))"
  shows "snd (get_api_keys_loop w pid as st) =
           st\<lparr>ncalls := ncalls st + (if j < length as then Suc j else j),
              slept := slept st @ map (\<lambda>a. a * 5) (take j as)\<rparr> \<and>
         (fst (get_api_keys_loop w pid as st) = Return None \<longleftrightarrow> j = length as)"
  using assms
proof (induction as arbitrary: st j)
  case Nil
  then show ?case by simp
next
  case (Cons a as)
  let ?r = "respond w (ncalls st) (api_keys_json_cmd pid)"
  let ?st0 = "st\<lparr>ncalls := Suc (ncalls st)\<rparr>"
  have a: "a \<noteq> 1" and as: "1 \<notin> set as" using Cons.prems(1) by auto
  show ?case
  proof (cases j)
    case 0
    then have nf: "\<not> keys_attempt_fails w ?r"
      using Cons.prems(4) by simp
    show ?thesis
      using get_api_keys_loop_stop [OF a nf, of as] 0 by simp
  next
    case (Suc j')
    let ?st1 = "py_sleep (a * 5) ?st0"
    have here: "keys_attempt_fails w ?r"
      using Cons.prems(3) Suc by force
    have p1: "j' \<le> length as" using Cons.prems(2) Suc by simp
    have p2: "\<forall>i<j'. keys_attempt_fails w (respond w (ncalls ?st1 + i) (api_keys_json_cmd pid))"
      using Cons.prems(3) Suc by (auto simp: py_sleep_def)
    have p3: "j' < length as \<longrightarrow>
       \<not> keys_attempt_fails w (respond w (ncalls ?st1 + j') (api_keys_json_cmd pid))"
      using Cons.prems(4) Suc by (auto simp: py_sleep_def)
    have IH: "snd (get_api_keys_loop w pid as ?st1) =
           ?st1\<lparr>ncalls := ncalls ?st1 + (if j' < length as then Suc j' else j'),
              slept := slept ?st1 @ map (\<lambda>a. a * 5) (take j' as)\<rparr> \<and>
         (fst (get_api_keys_loop w pid as ?st1) = Return None \<longleftrightarrow> j' = length as)"
      using as p1 p2 p3 by (rule Cons.IH)
    have "snd (get_api_keys_loop w pid as ?st1) =
           st\<lparr>ncalls := ncalls st + (if j < length (a # as) then Suc j else j),
              slept := slept st @ map (\<lambda>a. a * 5) (take j (a # as))\<rparr>"
      using IH Suc by (simp add: py_sleep_def)
    moreover have "fst (get_api_keys_loop w pid as ?st1) = Return None \<longleftrightarrow> j = length (a # as)"
      using IH Suc by simp
    ultimately show ?thesis
      unfolding get_api_keys_loop_step [OF a here] by simp
  qed
qed

lemma take_2345:
  assumes "j' \<le> 4"
  shows "(5::nat) # map (\<lambda>a. a * 5) (take j' [2, 3, 4, 5]) = map (\<lambda>i. i * 5) [1..<Suc (Suc j')]"
proof -
  have "j' = 0 \<or> j' = 1 \<or> j' = 2 \<or> j' = 3 \<or> j' = 4" using assms by arith
  then show ?thesis
    by (elim disjE) (simp_all add: upt_rec)
qed

lemma get_api_keys_loop_all:
  assumes "j \<le> 5"
    "\<forall>i<j. keys_attempt_fails w (respond w (ncalls st + Suc i) (api_keys_json_cmd pid))"
    "j < 5 \<longrightarrow> \<not> keys_attempt_fails w (respond w (ncalls st + Suc j) (api_keys_json_cmd pid))"
  shows "snd (get_api_keys_loop w pid [1, 2, 3, 4, 5] st) =
           st\<lparr>ncalls := ncalls st + (if j < 5 then j + 2 else 6),
              slept := slept st @ map (\<lambda>i. i * 5) [1..<Suc j]\<rparr> \<and>
         (fst (get_api_keys_loop w pid [1, 2, 3, 4, 5] st) = Return None \<longleftrightarrow> j = 5)"
proof (cases j)
  case 0
  let ?r = "respond w (Suc (ncalls st)) (api_keys_json_cmd pid)"
  let ?t = "get_api_keys_try w (snd ?r)"
  let ?st1 = "st\<lparr>ncalls := Suc (Suc (ncalls st))\<rparr>"
  have nf: "\<not> keys_attempt_fails w ?r" using assms(3) 0 by simp
  have att: "get_api_keys_attempt w pid 1 st =
     (case ?t of
        Return (Some keys) \<Rightarrow> (Return (Some keys), ?st1)
      | Return None \<Rightarrow> (Return None, py_sleep 5 ?st1)
      | Exit c \<Rightarrow> (Exit c, ?st1)
      | Raise e \<Rightarrow> (Raise e, ?st1))"
    by (simp add: get_api_keys_attempt_first keys_inner_not_fails(1) [OF nf] Let_def
        del: One_nat_def)
  have "snd (get_api_keys_loop w pid [1, 2, 3, 4, 5] st) = ?st1 \<and>
        fst (get_api_keys_loop w pid [1, 2, 3, 4, 5] st) \<noteq> Return None"
    using keys_inner_not_fails(2) [OF nf]
    by (cases ?t) (auto simp: att and_then_def simp del: One_nat_def split: option.splits)
  then show ?thesis using 0 by simp
next
  case (Suc j')
  let ?st1 = "py_sleep 5 (st\<lparr>ncalls := Suc (Suc (ncalls st))\<rparr>)"
  have f0: "keys_attempt_fails w (respond w (Suc (ncalls st)) (api_keys_json_cmd pid))"
    using assms(2) Suc by force
  have att: "get_api_keys_attempt w pid 1 st = (Return None, ?st1)"
    by (simp add: get_api_keys_attempt_first keys_inner_fails [OF f0] Let_def del: One_nat_def)
  have step: "get_api_keys_loop w pid [1, 2, 3, 4, 5] st = get_api_keys_loop w pid [2, 3, 4, 5] ?st1"
    by (simp add: att and_then_def del: One_nat_def)
  have p0: "(1::nat) \<notin> set [2, 3, 4, 5]" by simp
  have p1: "j' \<le> length [2, 3, 4, 5::nat]" using assms(1) Suc by simp
  have p2: "\<forall>i<j'. keys_attempt_fails w (respond w (ncalls ?st1 + i) (api_keys_json_cmd pid))"
    using assms(2) Suc by (auto simp: py_sleep_def)
  have p3: "j' < length [2, 3, 4, 5::nat] \<longrightarrow>
      \<not> keys_attempt_fails w (respond w (ncalls ?st1 + j') (api_keys_json_cmd pid))"
    using assms(3) Suc by (auto simp: py_sleep_def)
  note run = get_api_keys_loop_run [OF p0 p1 p2 p3]
  have "j' \<le> 4" using assms(1) Suc by simp
  note tk = take_2345 [OF this]
  have "snd (get_api_keys_loop w pid [2, 3, 4, 5] ?st1) =
           st\<lparr>ncalls := ncalls st + (if j < 5 then j + 2 else 6),
              slept := slept st @ map (\<lambda>i. i * 5) [1..<Suc j]\<rparr>"
    using run tk Suc by (auto simp: py_sleep_def)
  moreover have "fst (get_api_keys_loop w pid [2, 3, 4, 5] ?st1) = Return None \<longleftrightarrow> j = 5"
    using run Suc by auto
  ultimately show ?thesis unfolding step by simp
qed

lemma get_api_keys_delays:
  assumes "j \<le> 5"
    "\<forall>i<j. keys_attempt_fails w (respond w (ncalls st + Suc i) (api_keys_json_cmd pid))"
    "j < 5 \<longrightarrow> \<not> keys_attempt_fails w (respond w (ncalls st + Suc j) (api_keys_json_cmd pid))"
  shows "slept (snd (get_api_keys w pid st)) = slept st @ map (\<lambda>i. i * 5) [1..<Suc j]"
  using get_api_keys_loop_all [OF assms]
  by (simp add: get_api_keys_slept_loop upt_1_6)

lemma get_api_keys_all_fail:
  assumes "\<forall>i<5. keys_attempt_fails w (respond w (ncalls st + Suc i) (api_keys_json_cmd pid))"
    "show_fails (respond w (ncalls st + 6) (projects_show_cmd pid))"
  shows "get_api_keys w pid st =
         (Return (JNull, JNull),
          st\<lparr>ncalls := ncalls st + 7, slept := slept st @ [5, 10, 15, 20, 25]\<rparr>)"
proof -
  have run: "snd (get_api_keys_loop w pid [1, 2, 3, 4, 5] st) =
           st\<lparr>ncalls := ncalls st + 6, slept := slept st @ map (\<lambda>i. i * 5) [1..<6]\<rparr>"
    "fst (get_api_keys_loop w pid [1, 2, 3, 4, 5] st) = Return None"
    using get_api_keys_loop_all [of 5 w st pid] assms(1) by simp_all
  have sl: "map (\<lambda>i. i * 5) [1..<6] = [5, 10, 15, 20, 25::nat]"
    by (simp add: upt_1_6)
  have loop: "get_api_keys_loop w pid [1, 2, 3, 4, 5] st =
      (Return None, st\<lparr>ncalls := ncalls st + 6, slept := slept st @ [5, 10, 15, 20, 25]\<rparr>)"
    using run sl by (cases "get_api_keys_loop w pid [1, 2, 3, 4, 5] st") simp
  show ?thesis
    unfolding get_api_keys_def upt_1_6 loop
    using assms(2)
    by (auto simp: and_then_def run_command_def Let_def show_fails_def)
qed

lemma three_below: "(\<forall>i<3. P (i::nat)) \<longleftrightarrow> P 0 \<and> P (Suc 0) \<and> P (Suc (Suc 0))"
proof -
  have "\<And>i::nat. i < 3 \<longleftrightarrow> i = 0 \<or> i = Suc 0 \<or> i = Suc (Suc 0)" by arith
  then show ?thesis by auto
qed

lemma five_below:
  "(\<forall>i<5. P (i::nat)) \<longleftrightarrow>
     P 0 \<and> P (Suc 0) \<and> P (Suc (Suc 0)) \<and> P (Suc (Suc (Suc 0))) \<and> P (Suc (Suc (Suc (Suc 0))))"
proof -
  have "\<And>i::nat. i < 5 \<longleftrightarrow>
      i = 0 \<or> i = Suc 0 \<or> i = Suc (Suc 0) \<or> i = Suc (Suc (Suc 0)) \<or> i = Suc (Suc (Suc (Suc 0)))"
    by arith
  then show ?thesis by auto
qed

lemma link_project_all_fail:
  assumes "\<forall>i<5. fst (respond w (ncalls st + i) (link_cmd pid pw)) \<noteq> 0"
  shows "link_project w pid pw st =
         (Exit 1, st\<lparr>ncalls := ncalls st + 5, slept := slept st @ [10, 10, 10, 10]\<rparr>)"
  using assms unfolding five_below link_project_def upt_1_6
  by (simp add: run_eval)

lemma sync_remote_changes_all_fail:
  assumes "\<forall>i<3. fst (respond w (ncalls st + i) [''npx'', ''supabase'', ''db'', ''remote'', ''changes'']) \<noteq> 0"
  shows "sync_remote_changes w st =
         (Exit 1, st\<lparr>ncalls := ncalls st + 3, slept := slept st @ [5, 5]\<rparr>)"
  using assms unfolding three_below sync_remote_changes_def upt_1_4
  by (simp add: run_eval)

lemma apply_migrations_all_fail:
  assumes "\<forall>i<3. fst (respond w (ncalls st + i) [''npx'', ''supabase'', ''db'', ''push'']) \<noteq> 0"
  shows "apply_migrations w st =
         (Exit 1, st\<lparr>ncalls := ncalls st + 3, slept := slept st @ [5, 5]\<rparr>)"
  using assms unfolding three_below apply_migrations_def upt_1_4
  by (simp add: run_eval)

lemma config_set_loop_all_fail:
  assumes "\<forall>i<3. fst (respond w (ncalls st + i) cmd) \<noteq> 0"
  shows "config_set_loop w cmd [1, 2, 3] st =
         (Exit 1, st\<lparr>ncalls := ncalls st + 3, slept := slept st @ [3, 3]\<rparr>)"
  using assms unfolding three_below
  by (simp add: run_eval)

lemma config_set_loop_success:
  assumes "j < 3" "\<forall>i<j. fst (respond w (ncalls st + i) cmd) \<noteq> 0"
    "fst (respond w (ncalls st + j) cmd) = 0"
  shows "config_set_loop w cmd [1, 2, 3] st =
         (Return (), st\<lparr>ncalls := ncalls st + Suc j, slept := slept st @ replicate j 3\<rparr>)"
proof -
  have "j = 0 \<or> j = 1 \<or> j = 2" using assms(1) by arith
  then show ?thesis
  proof (elim disjE)
    assume "j = 0"
    then show ?thesis using assms(3) by (simp add: run_eval)
  next
    assume j: "j = 1"
    then have "fst (respond w (ncalls st) cmd) \<noteq> 0" using assms(2) by simp
    then show ?thesis using assms(3) j by (simp add: run_eval)
  next
    assume j: "j = 2"
    then have "fst (respond w (ncalls st) cmd) \<noteq> 0" "fst (respond w (Suc (ncalls st)) cmd) \<noteq> 0"
      using assms(2) [rule_format, of 0] assms(2) [rule_format, of 1] by simp_all
    then show ?thesis using assms(3) j by (simp add: run_eval numeral_2_eq_2)
  qed
qed

lemma create_project_loop_all_fail:
  assumes "\<forall>i<3. fst (respond w (ncalls st + i) cmd) \<noteq> 0"
  shows "create_project_loop w cmd [1, 2, 3] st =
         st\<lparr>ncalls := ncalls st + 3, slept := slept st @ [1, 1]\<rparr>"
  using assms unfolding three_below
  by (simp add: run_eval)

lemma get_project_id_all_fail:
  assumes "\<forall>i<5. project_id_attempt_fails w name (respond w (ncalls st + i) projects_list_json)"
  shows "get_project_id w name st =
         (Return JNull, st\<lparr>ncalls := ncalls st + 5, slept := slept st @ [10, 10, 10, 10, 10]\<rparr>)"
proof -
  have "snd (get_project_id_loop w name [1, 2, 3, 4, 5] st) =
           st\<lparr>ncalls := ncalls st + 5, slept := slept st @ replicate 5 10\<rparr> \<and>
        fst (get_project_id_loop w name [1, 2, 3, 4, 5] st) = Return JNull"
    using get_project_id_loop_run [of 5 "[1, 2, 3, 4, 5]" w name st] assms by simp
  then show ?thesis
    by (cases "get_project_id_loop w name [1, 2, 3, 4, 5] st")
      (simp add: get_project_id_def upt_1_6 numeral_eq_Suc)
qed

lemma get_project_id_delays:
  assumes "j \<le> 5"
    "\<forall>i<j. project_id_attempt_fails w name (respond w (ncalls st + i) projects_list_json)"
    "j < 5 \<longrightarrow> \<not> project_id_attempt_fails w name (respond w (ncalls st + j) projects_list_json)"
  shows "slept (snd (get_project_id w name st)) = slept st @ replicate j 10"
  using get_project_id_loop_run [of j "[1, 2, 3, 4, 5]" w name st] assms
  by (simp add: get_project_id_def upt_1_6)

lemma create_project_after_failures:
  assumes "\<forall>i<3. fst (respond w (ncalls st + i)
                     (create_cmd name org (drawn_password w st) region)) \<noteq> 0"
  shows "create_project w name org region st =
         and_then (get_project_id w name (after_failed_creation w st))
           (\<lambda>pid st4. if \<not> truthy pid then (Exit 1, st4)
                       else (Return (pid, drawn_password w st), st4))"
proof -
  let ?st1 = "write_file ''template_postgres_pw'' (drawn_password w st) (st\<lparr>ndraws := ndraws st + 16\<rparr>)"
  have "\<forall>i<3. fst (respond w (ncalls ?st1 + i) (create_cmd name org (drawn_password w st) region)) \<noteq> 0"
    using assms by (simp add: write_file_def)
  then have "create_project_loop w (create_cmd name org (drawn_password w st) region) [1, 2, 3] ?st1 =
        ?st1\<lparr>ncalls := ncalls ?st1 + 3, slept := slept ?st1 @ [1, 1]\<rparr>"
    by (rule create_project_loop_all_fail)
  then have loop: "create_project_loop w (create_cmd name org (drawn_password w st) region) [1, 2, 3] ?st1 =
        after_failed_creation w st"
    by (simp add: after_failed_creation_def write_file_def)
  show ?thesis
    unfolding create_project_def upt_1_4 Let_def drawn_password_def [symmetric] loop
    by (rule refl)
qed

lemma object_raises:
  assumes "loads w out = Some (JObj (member # members))"
  shows "check_project_exists_try w name out = Raise AttributeError"
    and "get_project_id_try w name out = Raise AttributeError"
    and "get_api_keys_try w out = Raise AttributeError"
  using assms
  by (simp_all add: check_project_exists_try_def get_project_id_try_def get_api_keys_try_def)

lemma check_project_exists_raises:
  assumes "respond w (ncalls st) projects_list_json = (0, out)" "out \<noteq> []"
    "check_project_exists_try w name out = Raise e"
  shows "check_project_exists w name st = (Raise e, st\<lparr>ncalls := Suc (ncalls st)\<rparr>)"
  unfolding check_project_exists_def upt_1_4
  using assms by (simp add: run_eval)

lemma get_project_id_raises:
  assumes "respond w (ncalls st) projects_list_json = (0, out)" "out \<noteq> []"
    "get_project_id_try w name out = Raise e"
  shows "get_project_id w name st = (Raise e, st\<lparr>ncalls := Suc (ncalls st)\<rparr>)"
  unfolding get_project_id_def upt_1_6
  using assms by (simp add: run_eval)

lemma get_api_keys_raises:
  assumes "respond w (Suc (ncalls st)) (api_keys_json_cmd pid) = (0, out)" "out \<noteq> []"
    "get_api_keys_try w out = Raise e"
  shows "get_api_keys w pid st = (Raise e, st\<lparr>ncalls := Suc (Suc (ncalls st))\<rparr>)"
  unfolding get_api_keys_def upt_1_6
  using assms by (simp add: run_eval get_api_keys_attempt_def)

lemma create_project_all_fail:
  assumes "\<forall>i<3. fst (respond w (ncalls st + i)
                     (create_cmd name org (drawn_password w st) region)) \<noteq> 0"
    "\<forall>i<5. project_id_attempt_fails w name (respond w (ncalls st + 3 + i) projects_list_json)"
  shows "create_project w name org region st =
         (Exit 1, (after_failed_creation w st)
                    \<lparr>ncalls := ncalls st + 8, slept := slept st @ [1, 1, 10, 10, 10, 10, 10]\<rparr>)"
proof -
  let ?st3 = "after_failed_creation w st"
  have "\<forall>i<5. project_id_attempt_fails w name (respond w (ncalls ?st3 + i) projects_list_json)"
    using assms(2) by (simp add: after_failed_creation_def)
  then have "get_project_id w name ?st3 =
         (Return JNull, ?st3\<lparr>ncalls := ncalls ?st3 + 5, slept := slept ?st3 @ [10, 10, 10, 10, 10]\<rparr>)"
    by (rule get_project_id_all_fail)
  then show ?thesis
    unfolding create_project_after_failures [OF assms(1)]
    by (simp add: and_then_def after_failed_creation_def)
qed

lemma setup_auth_urls_first_exit:
  assumes "config_set_loop w
        [''npx'', ''supabase'', ''config'', ''set'', ''auth.site_url'', ''http://localhost:3000'']
        [1, 2, 3] st = (Exit c, s1)"
  shows "setup_auth_urls w st = (Exit c, s1)"
  unfolding setup_auth_urls_def upt_1_4 assms
  by (simp add: and_then_def del: config_set_loop.simps)

lemma setup_auth_urls_second_exit:
  assumes "config_set_loop w
        [''npx'', ''supabase'', ''config'', ''set'', ''auth.site_url'', ''http://localhost:3000'']
        [1, 2, 3] st = (Return (), s1)"
    "config_set_loop w
        [''npx'', ''supabase'', ''config'', ''set'', ''auth.additional_redirect_urls'',
         ''['' @ [DQ] @ ''http://localhost:3000'' @ [DQ] @ '']'']
        [1, 2, 3] s1 = (Exit c, s2)"
  shows "setup_auth_urls w st = (Exit c, s2)"
  unfolding setup_auth_urls_def upt_1_4 assms(1)
  using assms(2)
  by (simp add: and_then_def del: config_set_loop.simps)

lemma drawn_password_zero:
  "drawn_password failing_world initial_state = ''aaaaaaaaaaaaaaaa''"
  "drawn_password late_world initial_state = ''aaaaaaaaaaaaaaaa''"
  using password_of_zero_draws
  by (simp_all add: drawn_password_def failing_world_def late_world_def)

lemma extract_keys_show_brackets: "extract_keys_show ''[]'' = None"
  by code_simp

lemmas attempt_fails_eval = check_attempt_fails_def project_id_attempt_fails_def
  keys_attempt_fails_def show_fails_def

section \<open>Exhausted attempts\<close>

text \<open>
  C2 (amended). An attempt of a lookup fails when its command exits with a code other
  than zero, prints nothing, or prints an output on which the \<open>try\<close> statement ends
  without a result (\<open>check_attempt_fails\<close>, \<open>project_id_attempt_fails\<close>,
  \<open>keys_attempt_fails\<close>); an output that lists no project of the name is such a failure.

  When all of its attempts fail, a lookup returns without raising: \<open>check_project_exists\<close>
  returns \<open>False\<close> after 3 commands, \<open>get_project_id\<close> returns \<open>None\<close> after 5 commands,
  \<open>get_api_keys\<close> returns \<open>(None, None)\<close> after 7 commands (one to show the keys, five
  attempts, and \<open>projects show\<close> that gives nothing either). \<open>get_project_id\<close> never
  leaves the process, and what it returns is \<open>None\<close> or an identifier that is not empty.

  When the command of the first attempt exits with zero and prints a JSON object that is
  not empty, the lookup raises \<open>AttributeError\<close> at that attempt: the elements of an
  object are its keys, strings without \<open>get\<close>, and no handler catches the exception.

  When each of their commands exits with a code other than zero, \<open>link_project\<close> leaves
  the process with exit code 1 at its fifth command, \<open>sync_remote_changes\<close> and
  \<open>apply_migrations\<close> at their third, \<open>setup_auth_urls\<close> at the third command for the site
  URL or, once the site URL is set, at the third command for the redirect URLs.

  \<open>create_project\<close> does not leave the process at its third failed command: it goes on
  with \<open>get_project_id\<close> and does what the lookup gives, leaving with exit code 1 when the
  lookup returns \<open>None\<close> and returning the identifier and the password otherwise; when
  the five attempts of the lookup fail too, it leaves with exit code 1 at the eighth
  command.
\<close>

theorem exhausted_attempts:
  "((\<forall>i<3. check_attempt_fails w (respond w (ncalls st + i) projects_list_json)) \<longrightarrow>
      check_project_exists w project_name st =
        (Return False, st\<lparr>ncalls := ncalls st + 3, slept := slept st @ [1, 1, 1]\<rparr>)) \<and>
   ((\<forall>i<5. project_id_attempt_fails w project_name (respond w (ncalls st + i) projects_list_json)) \<longrightarrow>
      get_project_id w project_name st =
        (Return JNull, st\<lparr>ncalls := ncalls st + 5, slept := slept st @ [10, 10, 10, 10, 10]\<rparr>)) \<and>
   ((\<forall>i<5. keys_attempt_fails w (respond w (ncalls st + Suc i) (api_keys_json_cmd project_id))) \<and>
    show_fails (respond w (ncalls st + 6) (projects_show_cmd project_id)) \<longrightarrow>
      get_api_keys w project_id st =
        (Return (JNull, JNull),
         st\<lparr>ncalls := ncalls st + 7, slept := slept st @ [5, 10, 15, 20, 25]\<rparr>)) \<and>
   ((\<forall>i<5. fst (respond w (ncalls st + i) (link_cmd project_id db_password)) \<noteq> 0) \<longrightarrow>
      link_project w project_id db_password st =
        (Exit 1, st\<lparr>ncalls := ncalls st + 5, slept := slept st @ [10, 10, 10, 10]\<rparr>)) \<and>
   ((\<forall>i<3. fst (respond w (ncalls st + i)
                [''npx'', ''supabase'', ''db'', ''remote'', ''changes'']) \<noteq> 0) \<longrightarrow>
      sync_remote_changes w st =
        (Exit 1, st\<lparr>ncalls := ncalls st + 3, slept := slept st @ [5, 5]\<rparr>)) \<and>
   ((\<forall>i<3. fst (respond w (ncalls st + i) [''npx'', ''supabase'', ''db'', ''push'']) \<noteq> 0) \<longrightarrow>
      apply_migrations w st =
        (Exit 1, st\<lparr>ncalls := ncalls st + 3, slept := slept st @ [5, 5]\<rparr>)) \<and>
   ((\<forall>i<3. fst (respond w (ncalls st + i)
                [''npx'', ''supabase'', ''config'', ''set'', ''auth.site_url'',
                 ''http://localhost:3000'']) \<noteq> 0) \<longrightarrow>
      setup_auth_urls w st =
        (Exit 1, st\<lparr>ncalls := ncalls st + 3, slept := slept st @ [3, 3]\<rparr>)) \<and>
   (j < 3 \<and>
    (\<forall>i<j. fst (respond w (ncalls st + i)
                [''npx'', ''supabase'', ''config'', ''set'', ''auth.site_url'',
                 ''http://localhost:3000'']) \<noteq> 0) \<and>
    fst (respond w (ncalls st + j)
           [''npx'', ''supabase'', ''config'', ''set'', ''auth.site_url'',
            ''http://localhost:3000'']) = 0 \<and>
    (\<forall>i<3. fst (respond w (ncalls st + Suc j + i)
                [''npx'', ''supabase'', ''config'', ''set'', ''auth.additional_redirect_urls'',
                 ''['' @ [DQ] @ ''http://localhost:3000'' @ [DQ] @ '']'']) \<noteq> 0) \<longrightarrow>
      setup_auth_urls w st =
        (Exit 1, st\<lparr>ncalls := ncalls st + Suc j + 3,
                      slept := slept st @ replicate j 3 @ [3, 3]\<rparr>)) \<and>
   ((\<forall>i<3. fst (respond w (ncalls st + i)
                (create_cmd project_name org_id (drawn_password w st) region)) \<noteq> 0) \<longrightarrow>
      create_project w project_name org_id region st =
        and_then (get_project_id w project_name (after_failed_creation w st))
          (\<lambda>pid st4. if \<not> truthy pid then (Exit 1, st4)
                      else (Return (pid, drawn_password w st), st4))) \<and>
   ((\<forall>i<3. fst (respond w (ncalls st + i)
                (create_cmd project_name org_id (drawn_password w st) region)) \<noteq> 0) \<and>
    (\<forall>i<5. project_id_attempt_fails w project_name
              (respond w (ncalls st + 3 + i) projects_list_json)) \<longrightarrow>
      create_project w project_name org_id region st =
        (Exit 1, (after_failed_creation w st)
                   \<lparr>ncalls := ncalls st + 8, slept := slept st @ [1, 1, 10, 10, 10, 10, 10]\<rparr>)) \<and>
   (\<forall>c. fst (get_project_id w project_name st) \<noteq> Exit c) \<and>
   (\<forall>pid. fst (get_project_id w project_name st) = Return pid \<longrightarrow> pid = JNull \<or> truthy pid) \<and>
   (loads w (snd r) = Some listed \<and> lists_no_project project_name listed \<longrightarrow>
      project_id_attempt_fails w project_name r) \<and>
   (respond w (ncalls st) projects_list_json = (0, out) \<and> out \<noteq> [] \<and>
    loads w out = Some (JObj (member # members)) \<longrightarrow>
      check_project_exists w project_name st =
        (Raise AttributeError, st\<lparr>ncalls := Suc (ncalls st)\<rparr>) \<and>
      get_project_id w project_name st =
        (Raise AttributeError, st\<lparr>ncalls := Suc (ncalls st)\<rparr>)) \<and>
   (respond w (Suc (ncalls st)) (api_keys_json_cmd project_id) = (0, out) \<and> out \<noteq> [] \<and>
    loads w out = Some (JObj (member # members)) \<longrightarrow>
      get_api_keys w project_id st =
        (Raise AttributeError, st\<lparr>ncalls := Suc (Suc (ncalls st))\<rparr>))"
proof (intro conjI impI)
  assume "\<forall>i<3. check_attempt_fails w (respond w (ncalls st + i) projects_list_json)"
  then have "\<forall>i<length [1, 2, 3::nat].
      check_attempt_fails w (respond w (ncalls st + i) projects_list_json)"
    by simp
  from check_project_exists_loop_exhausted [OF this, of project_name]
  show "check_project_exists w project_name st =
        (Return False, st\<lparr>ncalls := ncalls st + 3, slept := slept st @ [1, 1, 1]\<rparr>)"
    by (simp add: check_project_exists_def upt_1_4 numeral_eq_Suc)
next
  assume "\<forall>i<5. project_id_attempt_fails w project_name (respond w (ncalls st + i) projects_list_json)"
  then show "get_project_id w project_name st =
        (Return JNull, st\<lparr>ncalls := ncalls st + 5, slept := slept st @ [10, 10, 10, 10, 10]\<rparr>)"
    by (rule get_project_id_all_fail)
next
  assume "(\<forall>i<5. keys_attempt_fails w (respond w (ncalls st + Suc i) (api_keys_json_cmd project_id))) \<and>
    show_fails (respond w (ncalls st + 6) (projects_show_cmd project_id))"
  then show "get_api_keys w project_id st =
        (Return (JNull, JNull),
         st\<lparr>ncalls := ncalls st + 7, slept := slept st @ [5, 10, 15, 20, 25]\<rparr>)"
    by (intro get_api_keys_all_fail) simp_all
next
  assume "\<forall>i<5. fst (respond w (ncalls st + i) (link_cmd project_id db_password)) \<noteq> 0"
  then show "link_project w project_id db_password st =
        (Exit 1, st\<lparr>ncalls := ncalls st + 5, slept := slept st @ [10, 10, 10, 10]\<rparr>)"
    by (rule link_project_all_fail)
next
  assume "\<forall>i<3. fst (respond w (ncalls st + i)
                [''npx'', ''supabase'', ''db'', ''remote'', ''changes'']) \<noteq> 0"
  then show "sync_remote_changes w st =
        (Exit 1, st\<lparr>ncalls := ncalls st + 3, slept := slept st @ [5, 5]\<rparr>)"
    by (rule sync_remote_changes_all_fail)
next
  assume "\<forall>i<3. fst (respond w (ncalls st + i) [''npx'', ''supabase'', ''db'', ''push'']) \<noteq> 0"
  then show "apply_migrations w st =
        (Exit 1, st\<lparr>ncalls := ncalls st + 3, slept := slept st @ [5, 5]\<rparr>)"
    by (rule apply_migrations_all_fail)
next
  assume "\<forall>i<3. fst (respond w (ncalls st + i)
                [''npx'', ''supabase'', ''config'', ''set'', ''auth.site_url'',
                 ''http://localhost:3000'']) \<noteq> 0"
  then show "setup_auth_urls w st =
        (Exit 1, st\<lparr>ncalls := ncalls st + 3, slept := slept st @ [3, 3]\<rparr>)"
    by (intro setup_auth_urls_first_exit config_set_loop_all_fail)
next
  let ?site = "[''npx'', ''supabase'', ''config'', ''set'', ''auth.site_url'', ''http://localhost:3000'']"
  let ?redirect = "[''npx'', ''supabase'', ''config'', ''set'', ''auth.additional_redirect_urls'',
                 ''['' @ [DQ] @ ''http://localhost:3000'' @ [DQ] @ '']'']"
  assume h: "j < 3 \<and>
    (\<forall>i<j. fst (respond w (ncalls st + i) ?site) \<noteq> 0) \<and>
    fst (respond w (ncalls st + j) ?site) = 0 \<and>
    (\<forall>i<3. fst (respond w (ncalls st + Suc j + i) ?redirect) \<noteq> 0)"
  let ?st1 = "st\<lparr>ncalls := ncalls st + Suc j, slept := slept st @ replicate j 3\<rparr>"
  have first: "config_set_loop w ?site [1, 2, 3] st = (Return (), ?st1)"
    using h by (intro config_set_loop_success) simp_all
  have "\<forall>i<3. fst (respond w (ncalls ?st1 + i) ?redirect) \<noteq> 0"
    using h by simp
  then have second: "config_set_loop w ?redirect [1, 2, 3] ?st1 =
      (Exit 1, ?st1\<lparr>ncalls := ncalls ?st1 + 3, slept := slept ?st1 @ [3, 3]\<rparr>)"
    by (rule config_set_loop_all_fail)
  show "setup_auth_urls w st =
        (Exit 1, st\<lparr>ncalls := ncalls st + Suc j + 3,
                      slept := slept st @ replicate j 3 @ [3, 3]\<rparr>)"
    using setup_auth_urls_second_exit [OF first second] by simp
next
  assume "\<forall>i<3. fst (respond w (ncalls st + i)
                (create_cmd project_name org_id (drawn_password w st) region)) \<noteq> 0"
  then show "create_project w project_name org_id region st =
        and_then (get_project_id w project_name (after_failed_creation w st))
          (\<lambda>pid st4. if \<not> truthy pid then (Exit 1, st4)
                      else (Return (pid, drawn_password w st), st4))"
    by (rule create_project_after_failures)
next
  assume "(\<forall>i<3. fst (respond w (ncalls st + i)
                (create_cmd project_name org_id (drawn_password w st) region)) \<noteq> 0) \<and>
    (\<forall>i<5. project_id_attempt_fails w project_name
              (respond w (ncalls st + 3 + i) projects_list_json))"
  then show "create_project w project_name org_id region st =
        (Exit 1, (after_failed_creation w st)
                   \<lparr>ncalls := ncalls st + 8, slept := slept st @ [1, 1, 10, 10, 10, 10, 10]\<rparr>)"
    by (intro create_project_all_fail) simp_all
next
  show "\<forall>c. fst (get_project_id w project_name st) \<noteq> Exit c"
    using get_project_id_loop_outcome [of w project_name "[1..<6]" st]
    by (simp add: get_project_id_def)
next
  show "\<forall>pid. fst (get_project_id w project_name st) = Return pid \<longrightarrow> pid = JNull \<or> truthy pid"
    using get_project_id_loop_outcome [of w project_name "[1..<6]" st]
    by (simp add: get_project_id_def)
next
  assume "loads w (snd r) = Some listed \<and> lists_no_project project_name listed"
  then show "project_id_attempt_fails w project_name r"
    using project_id_attempt_fails_not_listed [of w r listed project_name] by simp
next
  assume h: "respond w (ncalls st) projects_list_json = (0, out) \<and> out \<noteq> [] \<and>
    loads w out = Some (JObj (member # members))"
  then have "check_project_exists_try w project_name out = Raise AttributeError"
    by (intro object_raises(1)) simp
  with h show "check_project_exists w project_name st =
        (Raise AttributeError, st\<lparr>ncalls := Suc (ncalls st)\<rparr>)"
    by (intro check_project_exists_raises) simp_all
next
  assume h: "respond w (ncalls st) projects_list_json = (0, out) \<and> out \<noteq> [] \<and>
    loads w out = Some (JObj (member # members))"
  then have "get_project_id_try w project_name out = Raise AttributeError"
    by (intro object_raises(2)) simp
  with h show "get_project_id w project_name st =
        (Raise AttributeError, st\<lparr>ncalls := Suc (ncalls st)\<rparr>)"
    by (intro get_project_id_raises) simp_all
next
  assume h: "respond w (Suc (ncalls st)) (api_keys_json_cmd project_id) = (0, out) \<and> out \<noteq> [] \<and>
    loads w out = Some (JObj (member # members))"
  then have "get_api_keys_try w out = Raise AttributeError"
    by (intro object_raises(3)) simp
  with h show "get_api_keys w project_id st =
        (Raise AttributeError, st\<lparr>ncalls := Suc (Suc (ncalls st))\<rparr>)"
    by (intro get_api_keys_raises) simp_all
qed

theorem exhausted_attempts_witness:
  "check_project_exists failing_world ''app'' initial_state =
     (Return False, initial_state\<lparr>ncalls := 3, slept := [1, 1, 1]\<rparr>) \<and>
   get_project_id failing_world ''app'' initial_state =
     (Return JNull, initial_state\<lparr>ncalls := 5, slept := [10, 10, 10, 10, 10]\<rparr>) \<and>
   get_project_id empty_list_world ''app'' initial_state =
     (Return JNull, initial_state\<lparr>ncalls := 5, slept := [10, 10, 10, 10, 10]\<rparr>) \<and>
   get_api_keys failing_world ''abc'' initial_state =
     (Return (JNull, JNull), initial_state\<lparr>ncalls := 7, slept := [5, 10, 15, 20, 25]\<rparr>) \<and>
   get_api_keys empty_list_world ''abc'' initial_state =
     (Return (JNull, JNull), initial_state\<lparr>ncalls := 7, slept := [5, 10, 15, 20, 25]\<rparr>) \<and>
   link_project failing_world ''abc'' ''pw'' initial_state =
     (Exit 1, initial_state\<lparr>ncalls := 5, slept := [10, 10, 10, 10]\<rparr>) \<and>
   sync_remote_changes failing_world initial_state =
     (Exit 1, initial_state\<lparr>ncalls := 3, slept := [5, 5]\<rparr>) \<and>
   apply_migrations failing_world initial_state =
     (Exit 1, initial_state\<lparr>ncalls := 3, slept := [5, 5]\<rparr>) \<and>
   setup_auth_urls failing_world initial_state =
     (Exit 1, initial_state\<lparr>ncalls := 3, slept := [3, 3]\<rparr>) \<and>
   setup_auth_urls second_call_world initial_state =
     (Exit 1, initial_state\<lparr>ncalls := 5, slept := [3, 3, 3]\<rparr>) \<and>
   create_project failing_world ''app'' ''org'' ''us-west-1'' initial_state =
     (Exit 1, (after_failed_creation failing_world initial_state)
                \<lparr>ncalls := 8, slept := [1, 1, 10, 10, 10, 10, 10]\<rparr>) \<and>
   files (after_failed_creation failing_world initial_state) ''template_postgres_pw'' =
     Some ''aaaaaaaaaaaaaaaa'' \<and>
   create_project late_world ''app'' ''org'' ''us-west-1'' initial_state =
     and_then (get_project_id late_world ''app'' (after_failed_creation late_world initial_state))
       (\<lambda>pid st4. if \<not> truthy pid then (Exit 1, st4)
                   else (Return (pid, ''aaaaaaaaaaaaaaaa''), st4)) \<and>
   lists_no_project ''app'' (JArr []) \<and>
   project_id_attempt_fails empty_list_world ''app'' (0, ''[]'') \<and>
   check_project_exists error_body_world ''app'' initial_state =
     (Raise AttributeError, initial_state\<lparr>ncalls := 1\<rparr>) \<and>
   get_project_id error_body_world ''app'' initial_state =
     (Raise AttributeError, initial_state\<lparr>ncalls := 1\<rparr>) \<and>
   get_api_keys error_body_world ''abc'' initial_state =
     (Raise AttributeError, initial_state\<lparr>ncalls := 2\<rparr>)"
proof -
  note body = exhausted_attempts [where w = error_body_world and st = initial_state
      and project_name = "''app''" and project_id = "''abc''" and db_password = "''pw''"
      and org_id = "''org''" and region = "''us-west-1''" and j = 0
      and r = "(0, ''[]'')" and listed = "JArr []" and out = error_output
      and member = "(''message'', JStr ''x'')" and members = "[]"]
  have b: "respond error_body_world = (\<lambda>n cmd. (0, error_output))"
    "loads error_body_world error_output = Some (JObj [(''message'', JStr ''x'')])"
    "error_output \<noteq> []"
    by (simp_all add: error_body_world_def error_output_def)
  note failing = exhausted_attempts [where w = failing_world and st = initial_state
      and project_name = "''app''" and project_id = "''abc''" and db_password = "''pw''"
      and org_id = "''org''" and region = "''us-west-1''" and j = 0
      and r = "(0, ''[]'')" and listed = "JArr []" and out = error_output
      and member = "(''message'', JStr ''x'')" and members = "[]"]
  note empty = exhausted_attempts [where w = empty_list_world and st = initial_state
      and project_name = "''app''" and project_id = "''abc''" and db_password = "''pw''"
      and org_id = "''org''" and region = "''us-west-1''" and j = 0
      and r = "(0, ''[]'')" and listed = "JArr []" and out = error_output
      and member = "(''message'', JStr ''x'')" and members = "[]"]
  note second = exhausted_attempts [where w = second_call_world and st = initial_state
      and project_name = "''app''" and project_id = "''abc''" and db_password = "''pw''"
      and org_id = "''org''" and region = "''us-west-1''" and j = 1
      and r = "(0, ''[]'')" and listed = "JArr []" and out = error_output
      and member = "(''message'', JStr ''x'')" and members = "[]"]
  note late = exhausted_attempts [where w = late_world and st = initial_state
      and project_name = "''app''" and project_id = "''abc''" and db_password = "''pw''"
      and org_id = "''org''" and region = "''us-west-1''" and j = 0
      and r = "(0, ''[]'')" and listed = "JArr []" and out = error_output
      and member = "(''message'', JStr ''x'')" and members = "[]"]
  have f: "respond failing_world = (\<lambda>n cmd. (1, []))" "ncalls initial_state = 0"
    "slept initial_state = []"
    by (simp_all add: failing_world_def initial_state_def)
  have e: "respond empty_list_world = (\<lambda>n cmd. (0, ''[]''))"
    "loads empty_list_world ''[]'' = Some (JArr [])"
    by (simp_all add: empty_list_world_def)
  have s: "respond second_call_world = (\<lambda>n cmd. if n = 1 then (0, []) else (1, []))"
    by (simp add: second_call_world_def)
  have l: "respond late_world = (\<lambda>n cmd. if n < 3 then (1, []) else (0, projects_output))"
    by (simp add: late_world_def)
  have c1: "check_project_exists failing_world ''app'' initial_state =
     (Return False, initial_state\<lparr>ncalls := 3, slept := [1, 1, 1]\<rparr>)"
    using failing [THEN conjunct1] by (simp add: f attempt_fails_eval)
  have c2: "get_project_id failing_world ''app'' initial_state =
     (Return JNull, initial_state\<lparr>ncalls := 5, slept := [10, 10, 10, 10, 10]\<rparr>)"
    using failing [THEN conjunct2, THEN conjunct1] by (simp add: f attempt_fails_eval)
  have c2e: "get_project_id empty_list_world ''app'' initial_state =
     (Return JNull, initial_state\<lparr>ncalls := 5, slept := [10, 10, 10, 10, 10]\<rparr>)"
    using empty [THEN conjunct2, THEN conjunct1]
    by (simp add: e f attempt_fails_eval get_project_id_try_def)
  have c3: "get_api_keys failing_world ''abc'' initial_state =
     (Return (JNull, JNull), initial_state\<lparr>ncalls := 7, slept := [5, 10, 15, 20, 25]\<rparr>)"
    using failing [THEN conjunct2, THEN conjunct2, THEN conjunct1]
    by (simp add: f attempt_fails_eval)
  have c3e: "get_api_keys empty_list_world ''abc'' initial_state =
     (Return (JNull, JNull), initial_state\<lparr>ncalls := 7, slept := [5, 10, 15, 20, 25]\<rparr>)"
    using empty [THEN conjunct2, THEN conjunct2, THEN conjunct1]
    by (simp add: e f attempt_fails_eval get_api_keys_try_def extract_keys_show_brackets)
  note rest = failing [THEN conjunct2, THEN conjunct2, THEN conjunct2]
  have c4: "link_project failing_world ''abc'' ''pw'' initial_state =
     (Exit 1, initial_state\<lparr>ncalls := 5, slept := [10, 10, 10, 10]\<rparr>)"
    using rest [THEN conjunct1] by (simp add: f)
  have c5: "sync_remote_changes failing_world initial_state =
     (Exit 1, initial_state\<lparr>ncalls := 3, slept := [5, 5]\<rparr>)"
    using rest [THEN conjunct2, THEN conjunct1] by (simp add: f)
  have c6: "apply_migrations failing_world initial_state =
     (Exit 1, initial_state\<lparr>ncalls := 3, slept := [5, 5]\<rparr>)"
    using rest [THEN conjunct2, THEN conjunct2, THEN conjunct1] by (simp add: f)
  note rest2 = rest [THEN conjunct2, THEN conjunct2, THEN conjunct2]
  have c7: "setup_auth_urls failing_world initial_state =
     (Exit 1, initial_state\<lparr>ncalls := 3, slept := [3, 3]\<rparr>)"
    using rest2 [THEN conjunct1] by (simp add: f)
  have c8: "setup_auth_urls second_call_world initial_state =
     (Exit 1, initial_state\<lparr>ncalls := 5, slept := [3, 3, 3]\<rparr>)"
    using second [THEN conjunct2, THEN conjunct2, THEN conjunct2, THEN conjunct2,
        THEN conjunct2, THEN conjunct2, THEN conjunct2, THEN conjunct1]
    by (simp add: s f three_below)
  note rest3 = rest2 [THEN conjunct2, THEN conjunct2]
  have c10: "create_project failing_world ''app'' ''org'' ''us-west-1'' initial_state =
     (Exit 1, (after_failed_creation failing_world initial_state)
                \<lparr>ncalls := 8, slept := [1, 1, 10, 10, 10, 10, 10]\<rparr>)"
    using rest3 [THEN conjunct2, THEN conjunct1] by (simp add: f attempt_fails_eval)
  have c10f: "files (after_failed_creation failing_world initial_state) ''template_postgres_pw'' =
     Some ''aaaaaaaaaaaaaaaa''"
    by (simp add: after_failed_creation_def write_file_def drawn_password_zero)
  have c9: "create_project late_world ''app'' ''org'' ''us-west-1'' initial_state =
     and_then (get_project_id late_world ''app'' (after_failed_creation late_world initial_state))
       (\<lambda>pid st4. if \<not> truthy pid then (Exit 1, st4)
                   else (Return (pid, ''aaaaaaaaaaaaaaaa''), st4))"
    using late [THEN conjunct2, THEN conjunct2, THEN conjunct2, THEN conjunct2,
        THEN conjunct2, THEN conjunct2, THEN conjunct2, THEN conjunct2, THEN conjunct1]
    by (simp add: l f three_below drawn_password_zero cong: if_cong)
  have no: "lists_no_project ''app'' (JArr [])"
    by (simp add: lists_no_project_def)
  have c13: "project_id_attempt_fails empty_list_world ''app'' (0, ''[]'')"
    using empty [THEN conjunct2, THEN conjunct2, THEN conjunct2, THEN conjunct2,
        THEN conjunct2, THEN conjunct2, THEN conjunct2, THEN conjunct2, THEN conjunct2,
        THEN conjunct2, THEN conjunct2, THEN conjunct2, THEN conjunct1] no
    by (simp add: e)
  note tail = body [THEN conjunct2, THEN conjunct2, THEN conjunct2, THEN conjunct2,
        THEN conjunct2, THEN conjunct2, THEN conjunct2, THEN conjunct2, THEN conjunct2,
        THEN conjunct2, THEN conjunct2, THEN conjunct2, THEN conjunct2]
  have c14: "check_project_exists error_body_world ''app'' initial_state =
       (Raise AttributeError, initial_state\<lparr>ncalls := 1\<rparr>) \<and>
     get_project_id error_body_world ''app'' initial_state =
       (Raise AttributeError, initial_state\<lparr>ncalls := 1\<rparr>)"
    using tail [THEN conjunct1] by (simp add: b f)
  have c15: "get_api_keys error_body_world ''abc'' initial_state =
     (Raise AttributeError, initial_state\<lparr>ncalls := 2\<rparr>)"
    using tail [THEN conjunct2] by (simp add: b f)
  show ?thesis
    using c1 c2 c2e c3 c3e c4 c5 c6 c7 c8 c10 c10f c9 no c13 c14 c15 by blast
qed

text \<open>
  C2 as stated fails for creation: when its three commands fail and the lookup that
  follows finds a project of that name, \<open>create_project\<close> returns the identifier and the
  password it drew, and the process goes on. It fails for the lookups too: when the
  command exits with zero and prints a JSON object, the first attempt of
  \<open>check_project_exists\<close>, \<open>get_project_id\<close> and \<open>get_api_keys\<close> raises \<open>AttributeError\<close>
  (the elements of an object are its keys, strings without \<open>get\<close>), which no handler
  catches.
\<close>

theorem exhausted_attempts_counterexample:
  "fst (respond late_world 0 (create_cmd ''app'' ''org'' ''aaaaaaaaaaaaaaaa'' ''us-west-1'')) = 1 \<and>
   fst (respond late_world 1 (create_cmd ''app'' ''org'' ''aaaaaaaaaaaaaaaa'' ''us-west-1'')) = 1 \<and>
   fst (respond late_world 2 (create_cmd ''app'' ''org'' ''aaaaaaaaaaaaaaaa'' ''us-west-1'')) = 1 \<and>
   fst (create_project late_world ''app'' ''org'' ''us-west-1'' initial_state) =
     Return (JStr ''abc'', ''aaaaaaaaaaaaaaaa'') \<and>
   ncalls (snd (create_project late_world ''app'' ''org'' ''us-west-1'' initial_state)) = 4 \<and>
   respond error_body_world 0 projects_list_json = (0, error_output) \<and>
   loads error_body_world error_output = Some (JObj [(''message'', JStr ''x'')]) \<and>
   check_project_exists error_body_world ''app'' initial_state =
     (Raise AttributeError, initial_state\<lparr>ncalls := 1\<rparr>) \<and>
   get_project_id error_body_world ''app'' initial_state =
     (Raise AttributeError, initial_state\<lparr>ncalls := 1\<rparr>) \<and>
   get_api_keys error_body_world ''abc'' initial_state =
     (Raise AttributeError, initial_state\<lparr>ncalls := 2\<rparr>)"
proof -
  have pw: "generate_secure_password_setup (\<lambda>i. draws late_world (ndraws initial_state + i)) 16 =
            ''aaaaaaaaaaaaaaaa''"
    using password_of_zero_draws by (simp add: late_world_def)
  have ne: "projects_output \<noteq> []" "error_output \<noteq> []"
    by (simp_all add: projects_output_def error_output_def)
  have late: "fst (respond late_world 0 (create_cmd ''app'' ''org'' ''aaaaaaaaaaaaaaaa'' ''us-west-1'')) = 1 \<and>
   fst (respond late_world 1 (create_cmd ''app'' ''org'' ''aaaaaaaaaaaaaaaa'' ''us-west-1'')) = 1 \<and>
   fst (respond late_world 2 (create_cmd ''app'' ''org'' ''aaaaaaaaaaaaaaaa'' ''us-west-1'')) = 1 \<and>
   fst (create_project late_world ''app'' ''org'' ''us-west-1'' initial_state) =
     Return (JStr ''abc'', ''aaaaaaaaaaaaaaaa'') \<and>
   ncalls (snd (create_project late_world ''app'' ''org'' ''us-west-1'' initial_state)) = 4"
    unfolding create_project_def get_project_id_def upt_1_4 upt_1_6 pw
    by (simp add: run_eval late_world_def initial_state_def write_file_def
        get_project_id_try_def ne)
  have body: "respond error_body_world 0 projects_list_json = (0, error_output)"
    "loads error_body_world error_output = Some (JObj [(''message'', JStr ''x'')])"
    by (simp_all add: error_body_world_def)
  have check: "check_project_exists error_body_world ''app'' initial_state =
     (Raise AttributeError, initial_state\<lparr>ncalls := 1\<rparr>)"
    unfolding check_project_exists_def upt_1_4
    by (simp add: run_eval error_body_world_def initial_state_def check_project_exists_try_def ne)
  have lookup: "get_project_id error_body_world ''app'' initial_state =
     (Raise AttributeError, initial_state\<lparr>ncalls := 1\<rparr>)"
    unfolding get_project_id_def upt_1_6
    by (simp add: run_eval error_body_world_def initial_state_def get_project_id_try_def ne)
  have keys: "get_api_keys error_body_world ''abc'' initial_state =
     (Raise AttributeError, initial_state\<lparr>ncalls := 2\<rparr>)"
    unfolding get_api_keys_def upt_1_6
    by (simp add: run_eval get_api_keys_attempt_def error_body_world_def initial_state_def
        get_api_keys_try_def ne)
  show ?thesis
    using late body check lookup keys by blast
qed

section \<open>API keys when the output is not JSON\<close>

lemma extract_keys_fallback_example:
  "extract_keys_fallback keys_output_bad = Some (JStr ''k1'', JStr ''k2'')"
  by code_simp

text \<open>
  C8 (amended). In \<open>get_api_keys\<close> of setup.py, an attempt whose command exits with zero
  and whose non-empty output is not JSON tries the two patterns on the output: when both
  match, the attempt returns the two keys; otherwise it sleeps and the next attempt
  follows. It never leaves the process. (\<open>get_api_keys\<close> of create-project.py has no
  second extraction: see the counterexample.)
\<close>

theorem parse_failure_falls_back:
  assumes "respond w (if attempt = 1 then Suc (ncalls st) else ncalls st)
             (api_keys_json_cmd project_id) = (0, out)"
    "out \<noteq> []" "loads w out = None"
  shows "get_api_keys_attempt w project_id attempt st =
           (case extract_keys_fallback out of
              Some keys \<Rightarrow>
                (Return (Some keys), st\<lparr>ncalls := ncalls st + (if attempt = 1 then 2 else 1)\<rparr>)
            | None \<Rightarrow>
                (Return None,
                 py_sleep (attempt * 5) (st\<lparr>ncalls := ncalls st + (if attempt = 1 then 2 else 1)\<rparr>))) \<and>
         (\<forall>c. fst (get_api_keys_attempt w project_id attempt st) \<noteq> Exit c)"
proof -
  have eq: "get_api_keys_attempt w project_id attempt st =
           (case extract_keys_fallback out of
              Some keys \<Rightarrow>
                (Return (Some keys), st\<lparr>ncalls := ncalls st + (if attempt = 1 then 2 else 1)\<rparr>)
            | None \<Rightarrow>
                (Return None,
                 py_sleep (attempt * 5) (st\<lparr>ncalls := ncalls st + (if attempt = 1 then 2 else 1)\<rparr>)))"
    using assms
    by (cases "attempt = 1")
      (simp_all add: get_api_keys_attempt_def get_api_keys_try_def run_eval split: option.splits)
  then show ?thesis
    by (cases "extract_keys_fallback out") simp_all
qed

theorem parse_failure_falls_back_witness:
  "get_api_keys_attempt unparsable_world ''abc'' 1 initial_state =
     (Return (Some (JStr ''k1'', JStr ''k2'')), initial_state\<lparr>ncalls := 2\<rparr>) \<and>
   (\<forall>c. fst (get_api_keys_attempt unparsable_world ''abc'' 1 initial_state) \<noteq> Exit c)"
proof -
  have h1: "respond unparsable_world (if (1::nat) = 1 then Suc (ncalls initial_state) else ncalls initial_state)
             (api_keys_json_cmd ''abc'') = (0, keys_output_bad)"
    by (simp add: unparsable_world_def)
  have h2: "keys_output_bad \<noteq> []"
    by (simp add: keys_output_bad_def)
  have h3: "loads unparsable_world keys_output_bad = None"
    by (simp add: unparsable_world_def)
  show ?thesis
    using parse_failure_falls_back [OF h1 h2 h3]
    by (simp add: extract_keys_fallback_example initial_state_def)
qed

text \<open>
  C8 as stated fails for create-project.py: on an output that is not JSON its
  \<open>get_api_keys\<close> leaves with exit code 1 at once, though the patterns would have found
  both keys.
\<close>

theorem parse_failure_falls_back_counterexample:
  "respond unparsable_world 0 (api_keys_json_cmd_create ''abc'') = (0, keys_output_bad) \<and>
   loads unparsable_world keys_output_bad = None \<and>
   extract_keys_fallback keys_output_bad = Some (JStr ''k1'', JStr ''k2'') \<and>
   fst (get_api_keys_create unparsable_world ''abc'' initial_state) = Exit 1"
  by (simp add: extract_keys_fallback_example get_api_keys_create_def run_eval
      unparsable_world_def initial_state_def)

section \<open>Delays between attempts\<close>

text \<open>
  C7 (amended). \<open>get_api_keys\<close> sleeps \<open>5 * i\<close> seconds after its failed attempt \<open>i\<close>: when
  its first \<open>j\<close> attempts fail and the next one does not (or \<open>j\<close> is 5, all of them), the
  sleeps it makes are 5, 10, ... up to \<open>5 * j\<close> and no other. \<open>get_project_id\<close>, the wait
  for a new project to be listed, sleeps the same 10 seconds after each failed attempt:
  when its first \<open>k\<close> attempts fail and the next one does not (or \<open>k\<close> is 5), the sleeps it
  makes are \<open>k\<close> times 10 seconds and no other. An attempt fails as in C2, also when the
  command exits with zero and the project is not listed yet.
\<close>

theorem backoff_delays:
  "(j \<le> 5 \<and>
    (\<forall>i<j. keys_attempt_fails w (respond w (ncalls st + Suc i) (api_keys_json_cmd project_id))) \<and>
    (j < 5 \<longrightarrow>
       \<not> keys_attempt_fails w (respond w (ncalls st + Suc j) (api_keys_json_cmd project_id))) \<longrightarrow>
      slept (snd (get_api_keys w project_id st)) = slept st @ map (\<lambda>i. i * 5) [1..<Suc j]) \<and>
   (k \<le> 5 \<and>
    (\<forall>i<k. project_id_attempt_fails w project_name (respond w (ncalls st + i) projects_list_json)) \<and>
    (k < 5 \<longrightarrow>
       \<not> project_id_attempt_fails w project_name (respond w (ncalls st + k) projects_list_json)) \<longrightarrow>
      slept (snd (get_project_id w project_name st)) = slept st @ replicate k 10)"
proof (intro conjI impI)
  assume "j \<le> 5 \<and>
    (\<forall>i<j. keys_attempt_fails w (respond w (ncalls st + Suc i) (api_keys_json_cmd project_id))) \<and>
    (j < 5 \<longrightarrow>
       \<not> keys_attempt_fails w (respond w (ncalls st + Suc j) (api_keys_json_cmd project_id)))"
  then show "slept (snd (get_api_keys w project_id st)) =
             slept st @ map (\<lambda>i. i * 5) [1..<Suc j]"
    by (intro get_api_keys_delays) simp_all
next
  assume "k \<le> 5 \<and>
    (\<forall>i<k. project_id_attempt_fails w project_name (respond w (ncalls st + i) projects_list_json)) \<and>
    (k < 5 \<longrightarrow>
       \<not> project_id_attempt_fails w project_name (respond w (ncalls st + k) projects_list_json))"
  then show "slept (snd (get_project_id w project_name st)) = slept st @ replicate k 10"
    by (intro get_project_id_delays) simp_all
qed

theorem backoff_delays_witness:
  "slept (snd (get_api_keys empty_list_world ''abc'' initial_state)) = [5, 10, 15, 20, 25] \<and>
   slept (snd (get_project_id empty_list_world ''app'' initial_state)) = [10, 10, 10, 10, 10] \<and>
   slept (snd (get_project_id late_world ''app'' initial_state)) = [10, 10, 10] \<and>
   slept (snd (get_api_keys unparsable_world ''abc'' initial_state)) = []"
proof -
  have i: "ncalls initial_state = 0" "slept initial_state = []"
    by (simp_all add: initial_state_def)
  have e: "respond empty_list_world = (\<lambda>n cmd. (0, ''[]''))"
    "loads empty_list_world ''[]'' = Some (JArr [])"
    by (simp_all add: empty_list_world_def)
  have l: "respond late_world = (\<lambda>n cmd. if n < 3 then (1, []) else (0, projects_output))"
    "loads late_world projects_output =
       Some (JArr [JObj [(''name'', JStr ''app''), (''id'', JStr ''abc'')]])"
    by (simp_all add: late_world_def)
  have u: "respond unparsable_world = (\<lambda>n cmd. (0, keys_output_bad))"
    "loads unparsable_world keys_output_bad = None"
    by (simp_all add: unparsable_world_def)
  have ne: "projects_output \<noteq> []" "keys_output_bad \<noteq> []"
    by (simp_all add: projects_output_def keys_output_bad_def)
  have a: "slept (snd (get_api_keys empty_list_world ''abc'' initial_state)) = [5, 10, 15, 20, 25]"
    using backoff_delays [where w = empty_list_world and st = initial_state and j = 5
        and k = 5 and project_id = "''abc''" and project_name = "''app''", THEN conjunct1]
    by (simp add: i e keys_attempt_fails_def get_api_keys_try_def upt_1_6)
  have b: "slept (snd (get_project_id empty_list_world ''app'' initial_state)) =
           [10, 10, 10, 10, 10]"
    using backoff_delays [where w = empty_list_world and st = initial_state and j = 5
        and k = 5 and project_id = "''abc''" and project_name = "''app''", THEN conjunct2]
    by (simp add: i e project_id_attempt_fails_def get_project_id_try_def numeral_eq_Suc)
  have c: "slept (snd (get_project_id late_world ''app'' initial_state)) = [10, 10, 10]"
    using backoff_delays [where w = late_world and st = initial_state and j = 5
        and k = 3 and project_id = "''abc''" and project_name = "''app''", THEN conjunct2]
    by (simp add: i l ne project_id_attempt_fails_def get_project_id_try_def numeral_eq_Suc)
  have d: "slept (snd (get_api_keys unparsable_world ''abc'' initial_state)) = []"
    using backoff_delays [where w = unparsable_world and st = initial_state and j = 0
        and k = 0 and project_id = "''abc''" and project_name = "''app''", THEN conjunct1]
    by (simp add: i u ne keys_attempt_fails_def get_api_keys_try_def
        extract_keys_fallback_example)
  show ?thesis
    using a b c d by blast
qed

text \<open>
  C7 as stated fails for the project-ID lookup: while the list command exits with zero
  and the project is not listed, its delays are all 10 seconds, the second is not twice
  the first.
\<close>

theorem backoff_delays_counterexample:
  "respond empty_list_world 0 projects_list_json = (0, ''[]'') \<and>
   loads empty_list_world ''[]'' = Some (JArr []) \<and>
   slept (snd (get_project_id empty_list_world ''app'' initial_state)) = [10, 10, 10, 10, 10] \<and>
   slept (snd (get_project_id empty_list_world ''app'' initial_state)) ! 1 \<noteq>
     2 * (slept (snd (get_project_id empty_list_world ''app'' initial_state)) ! 0)"
proof -
  have "get_project_id empty_list_world ''app'' initial_state =
     (Return JNull, initial_state\<lparr>ncalls := 5, slept := [10, 10, 10, 10, 10]\<rparr>)"
    unfolding get_project_id_def upt_1_6
    by (simp add: run_eval empty_list_world_def initial_state_def get_project_id_try_def)
  then show ?thesis
    by (simp add: empty_list_world_def)
qed

section \<open>The environment file on disk\<close>

text \<open>
  \<open>update_env_file\<close> of both scripts, run twice with the same plain values: the second
  run returns and leaves every file as the first run left it.
\<close>

lemma universal_newlines_no_CR: "CR \<notin> set s \<Longrightarrow> universal_newlines s = s"
  by (induction s rule: universal_newlines.induct) auto

lemma universal_newlines_CR_free: "CR \<notin> set (universal_newlines s)"
  by (induction s rule: universal_newlines.induct) auto

lemma set_split_lines: "l \<in> set (split_lines t) \<Longrightarrow> set l \<subseteq> set t"
proof (induction t arbitrary: l)
  case Nil
  then show ?case by simp
next
  case (Cons c cs)
  obtain h r where hr: "split_lines cs = h # r"
    by (cases "split_lines cs") auto
  have h: "set h \<subseteq> set cs" and r: "\<And>l. l \<in> set r \<Longrightarrow> set l \<subseteq> set cs"
    using Cons.IH hr by simp_all
  show ?case
  proof (cases "c = LF")
    case True
    then have "l = [] \<or> l = h \<or> l \<in> set r" using Cons.prems hr by simp
    then show ?thesis using h r by auto
  next
    case False
    then have "l = c # h \<or> l \<in> set r" using Cons.prems hr by simp
    then show ?thesis using h r by auto
  qed
qed

lemma set_join_lines: "set (join_lines ls) \<subseteq> insert LF (\<Union>l\<in>set ls. set l)"
  by (induction ls rule: join_lines.induct) auto

lemma sync_lines_avoid:
  assumes "c \<notin> set (env_line k v)" "\<forall>l\<in>set ls. c \<notin> set l"
  shows "\<forall>l\<in>set (sync_lines k v ls). c \<notin> set l"
  using assms by (auto simp: sync_lines_def)

lemma sync_vars_lines_avoid:
  assumes "\<forall>kv\<in>set kvs. c \<notin> set (env_line (fst kv) (snd kv))" "\<forall>l\<in>set ls. c \<notin> set l"
  shows "\<forall>l\<in>set (sync_vars_lines kvs ls). c \<notin> set l"
  using assms
proof (induction kvs arbitrary: ls)
  case Nil
  then show ?case by simp
next
  case (Cons kv kvs)
  obtain k v where kv: "kv = (k, v)" by (cases kv)
  have "c \<notin> set (env_line k v)" using Cons.prems(1) kv by simp
  then have "\<forall>l\<in>set (sync_lines k v ls). c \<notin> set l"
    using Cons.prems(2) by (rule sync_lines_avoid)
  moreover have "\<forall>kv\<in>set kvs. c \<notin> set (env_line (fst kv) (snd kv))"
    using Cons.prems(1) by simp
  ultimately have "\<forall>l\<in>set (sync_vars_lines kvs (sync_lines k v ls)). c \<notin> set l"
    by (rule Cons.IH [rotated])
  then show ?case by (simp add: kv)
qed

lemma sync_vars_plain_result:
  assumes "\<forall>kv\<in>set kvs. env_key (fst kv) \<and> file_value (snd kv)" "distinct (map fst kvs)"
    "CR \<notin> set t"
  shows "\<exists>t1. sync_vars kvs t = Inr t1 \<and> sync_vars kvs t1 = Inr t1 \<and> CR \<notin> set t1"
proof -
  let ?ls = "sync_vars_lines kvs (split_lines t)"
  have ok: "\<forall>kv\<in>set kvs. env_key (fst kv) \<and> env_value (snd kv)"
    using assms(1) by (simp add: file_value_def)
  have keys: "\<forall>kv\<in>set kvs. env_key (fst kv)" using assms(1) by simp
  have r1: "sync_vars kvs t = Inr (join_lines ?ls)"
    using ok by (rule sync_vars_lines_eq)
  have r2: "sync_vars kvs (join_lines ?ls) = Inr (join_lines ?ls)"
    by (simp only: sync_vars_lines_eq [OF ok] split_lines_sync_vars [OF ok]
        sync_vars_lines_idem [OF keys assms(2)])
  have "\<not> word_char CR"
    by (simp add: word_char_def ascii_letters_def ascii_lowercase_def ascii_uppercase_def digits_def)
  then have "\<forall>kv\<in>set kvs. CR \<notin> set (env_line (fst kv) (snd kv))"
    using assms(1) env_key_chars by (auto simp: env_line_def file_value_def)
  moreover have "\<forall>l\<in>set (split_lines t). CR \<notin> set l"
    using assms(3) set_split_lines by blast
  ultimately have "\<forall>l\<in>set ?ls. CR \<notin> set l"
    by (rule sync_vars_lines_avoid)
  then have "CR \<notin> set (join_lines ?ls)"
    using set_join_lines [of ?ls] by auto
  with r1 r2 show ?thesis by blast
qed

lemma path_exists_ensure: "path_exists (ensure_env_file st) ''.env''"
  by (simp add: ensure_env_file_def path_exists_def write_file_def)

lemma ensure_env_file_exists: "path_exists st ''.env'' \<Longrightarrow> ensure_env_file st = st"
  by (simp add: ensure_env_file_def)

lemma read_written:
  "CR \<notin> set t \<Longrightarrow> read_file (write_file p t st) p = t"
  by (simp add: read_file_def write_file_def universal_newlines_no_CR)

lemma write_file_twice: "write_file p t (write_file p t st) = write_file p t st"
  by (simp add: write_file_def)

lemma path_exists_written: "path_exists (write_file p t st) p"
  by (simp add: path_exists_def write_file_def)

lemma env_vars_setup_keys:
  "\<forall>kv\<in>set (env_vars_setup url ak sk pw org). env_key (fst kv)"
  "distinct (map fst (env_vars_setup url ak sk pw org))"
  by (simp_all add: env_vars_setup_def env_key_def word_char_def ascii_letters_def
      ascii_lowercase_def ascii_uppercase_def digits_def)

lemma update_env_file_setup_twice:
  assumes "file_value project_url" "file_value anon_key" "file_value service_key"
    "file_value db_password" "file_value org_id"
  shows "\<exists>st1. update_env_file_setup project_id project_url anon_key service_key db_password org_id st =
                 (Return (), st1) \<and>
               update_env_file_setup project_id project_url anon_key service_key db_password org_id st1 =
                 (Return (), st1)"
proof -
  let ?kvs = "env_vars_setup project_url anon_key service_key db_password org_id"
  let ?st0 = "ensure_env_file st"
  have vals: "\<forall>kv\<in>set ?kvs. env_key (fst kv) \<and> file_value (snd kv)"
    using assms env_vars_setup_keys(1) [of project_url anon_key service_key db_password org_id]
    by (simp add: env_vars_setup_def)
  have "CR \<notin> set (read_file ?st0 ''.env'')"
    by (simp add: read_file_def universal_newlines_CR_free split: option.splits)
  then obtain t1 where t1: "sync_vars ?kvs (read_file ?st0 ''.env'') = Inr t1"
    "sync_vars ?kvs t1 = Inr t1" "CR \<notin> set t1"
    using sync_vars_plain_result [OF vals env_vars_setup_keys(2)] by blast
  let ?st1 = "write_file ''.env'' t1 ?st0"
  have first: "update_env_file_setup project_id project_url anon_key service_key db_password org_id st =
      (Return (), ?st1)"
    by (simp add: update_env_file_setup_def Let_def t1(1))
  have "ensure_env_file ?st1 = ?st1"
    by (rule ensure_env_file_exists) (rule path_exists_written)
  then have "update_env_file_setup project_id project_url anon_key service_key db_password org_id ?st1 =
      (Return (), ?st1)"
    by (simp add: update_env_file_setup_def Let_def read_written [OF t1(3)] t1(2) write_file_twice)
  with first show ?thesis by blast
qed

lemma sync_vars_append:
  "sync_vars (kvs1 @ kvs2) t =
     (case sync_vars kvs1 t of Inl e \<Rightarrow> Inl e | Inr t' \<Rightarrow> sync_vars kvs2 t')"
proof (induction kvs1 arbitrary: t)
  case Nil
  show ?case by simp
next
  case (Cons kv kvs1)
  obtain k v where kv: "kv = (k, v)" by (cases kv)
  show ?case
    by (cases "sync_key k v t") (simp_all add: kv Cons.IH)
qed

lemma update_env_file_create_one_pass:
  "update_env_file_create project_id project_url anon_key service_key db_password org_id st =
     (case sync_vars (env_vars_create project_id project_url anon_key service_key db_password org_id @
                      public_vars_create project_url anon_key)
             (read_file (ensure_env_file st) ''.env'') of
        Inl e \<Rightarrow> (Raise e, ensure_env_file st)
      | Inr c \<Rightarrow> (Return (), write_file ''.env'' c (ensure_env_file st)))"
  by (simp add: update_env_file_create_def Let_def sync_vars_append split: sum.splits)

lemma env_vars_create_keys:
  "\<forall>kv\<in>set (env_vars_create pid url ak sk pw org @ public_vars_create url ak). env_key (fst kv)"
  "distinct (map fst (env_vars_create pid url ak sk pw org @ public_vars_create url ak))"
  by (cases "url = []"; cases "ak = []";
      simp add: env_vars_create_def public_vars_create_def env_key_def word_char_def
        ascii_letters_def ascii_lowercase_def ascii_uppercase_def digits_def)+

lemma update_env_file_create_twice:
  assumes "file_value project_id" "file_value project_url" "file_value anon_key"
    "file_value service_key" "file_value db_password" "file_value org_id"
  shows "\<exists>st1. update_env_file_create project_id project_url anon_key service_key db_password org_id st =
                 (Return (), st1) \<and>
               update_env_file_create project_id project_url anon_key service_key db_password org_id st1 =
                 (Return (), st1)"
proof -
  let ?kvs = "env_vars_create project_id project_url anon_key service_key db_password org_id @
              public_vars_create project_url anon_key"
  let ?st0 = "ensure_env_file st"
  have vals: "\<forall>kv\<in>set ?kvs. env_key (fst kv) \<and> file_value (snd kv)"
    using assms env_vars_create_keys(1) [of project_id project_url anon_key service_key db_password org_id]
    by (cases "project_url = []"; cases "anon_key = []")
      (simp_all add: env_vars_create_def public_vars_create_def)
  have "CR \<notin> set (read_file ?st0 ''.env'')"
    by (simp add: read_file_def universal_newlines_CR_free split: option.splits)
  then obtain t1 where t1: "sync_vars ?kvs (read_file ?st0 ''.env'') = Inr t1"
    "sync_vars ?kvs t1 = Inr t1" "CR \<notin> set t1"
    using sync_vars_plain_result [OF vals env_vars_create_keys(2)] by blast
  let ?st1 = "write_file ''.env'' t1 ?st0"
  have first: "update_env_file_create project_id project_url anon_key service_key db_password org_id st =
      (Return (), ?st1)"
    by (simp only: update_env_file_create_one_pass t1(1) sum.case)
  have "ensure_env_file ?st1 = ?st1"
    by (rule ensure_env_file_exists) (rule path_exists_written)
  then have "update_env_file_create project_id project_url anon_key service_key db_password org_id ?st1 =
      (Return (), ?st1)"
    by (simp only: update_env_file_create_one_pass read_written [OF t1(3)] t1(2) sum.case
        write_file_twice)
  with first show ?thesis by blast
qed

text \<open>
  Two runs of \<open>update_env_file\<close> of setup.py from no file at all, with an organization
  identifier that holds a line feed, and with one that holds a carriage return.
\<close>

lemmas file_eval = update_env_file_setup_def ensure_env_file_def path_exists_def read_file_def
  write_file_def initial_state_def env_vars_setup_def Let_def

lemma first_run_lf:
  "update_env_file_setup ''abc'' ''u'' ''k'' ''s'' ''p'' [CHR ''a'', LF, CHR ''b''] initial_state =
     (Return (), write_file ''.env'' (env_after_first [CHR ''a'', LF, CHR ''b'']) initial_state)"
  by (simp add: file_eval sync_eval env_after_first_def)

lemma second_run_lf:
  "update_env_file_setup ''abc'' ''u'' ''k'' ''s'' ''p'' [CHR ''a'', LF, CHR ''b'']
     (write_file ''.env'' (env_after_first [CHR ''a'', LF, CHR ''b'']) initial_state) =
     (Return (), write_file ''.env'' (env_after_first [CHR ''a'', LF, CHR ''b'', LF, CHR ''b''])
        initial_state)"
  by (simp add: file_eval sync_eval env_after_first_def)

lemma first_run_cr:
  "update_env_file_setup ''abc'' ''u'' ''k'' ''s'' ''p'' [CHR ''o'', CR, CHR ''g''] initial_state =
     (Return (), write_file ''.env'' (env_after_first [CHR ''o'', CR, CHR ''g'']) initial_state)"
  by (simp add: file_eval sync_eval env_after_first_def)

lemma second_run_cr:
  "update_env_file_setup ''abc'' ''u'' ''k'' ''s'' ''p'' [CHR ''o'', CR, CHR ''g'']
     (write_file ''.env'' (env_after_first [CHR ''o'', CR, CHR ''g'']) initial_state) =
     (Return (), write_file ''.env'' (env_after_first [CHR ''o'', CR, CHR ''g'', LF, CHR ''g''])
        initial_state)"
  by (simp add: file_eval sync_eval env_after_first_def)

lemma file_value_examples:
  "file_value ''abc''" "file_value ''https://abc.supabase.co''" "file_value ''k1''"
  "file_value ''k2''" "file_value ''pw''" "file_value ''org''" "file_value ''new''"
  by (simp_all add: file_value_def env_value_def)

text \<open>
  C1 (amended). \<open>update_env_file\<close> run twice with the same values leaves the files as the
  first run left them, when no value holds a line feed, a carriage return or a backslash:
  for \<open>update_env_file\<close> of setup.py and of create-project.py, from every state of the
  files, the first run returns and the second run returns in the state the first one
  left. For any mapping of distinct keys (letters, digits, underscores) to such values,
  on the text of a file as read: the pass gives a text that is read back as it was
  written and that a second pass leaves as it is.
\<close>

theorem update_env_file_idempotent:
  "((\<forall>kv\<in>set kvs. env_key (fst kv) \<and> file_value (snd kv)) \<and> distinct (map fst kvs) \<longrightarrow>
      (\<exists>t1. sync_vars kvs (universal_newlines content) = Inr t1 \<and>
            universal_newlines t1 = t1 \<and> sync_vars kvs t1 = Inr t1)) \<and>
   (file_value project_url \<and> file_value anon_key \<and> file_value service_key \<and>
    file_value db_password \<and> file_value org_id \<longrightarrow>
      (\<exists>st1. update_env_file_setup project_id project_url anon_key service_key db_password org_id st =
               (Return (), st1) \<and>
             update_env_file_setup project_id project_url anon_key service_key db_password org_id st1 =
               (Return (), st1))) \<and>
   (file_value project_id \<and> file_value project_url \<and> file_value anon_key \<and>
    file_value service_key \<and> file_value db_password \<and> file_value org_id \<longrightarrow>
      (\<exists>st1. update_env_file_create project_id project_url anon_key service_key db_password org_id st =
               (Return (), st1) \<and>
             update_env_file_create project_id project_url anon_key service_key db_password org_id st1 =
               (Return (), st1)))"
proof (intro conjI impI)
  assume h: "(\<forall>kv\<in>set kvs. env_key (fst kv) \<and> file_value (snd kv)) \<and> distinct (map fst kvs)"
  have "CR \<notin> set (universal_newlines content)"
    by (rule universal_newlines_CR_free)
  then obtain t1 where t1: "sync_vars kvs (universal_newlines content) = Inr t1"
    "sync_vars kvs t1 = Inr t1" "CR \<notin> set t1"
    using sync_vars_plain_result [of kvs "universal_newlines content"] h by blast
  then have "universal_newlines t1 = t1"
    by (simp add: universal_newlines_no_CR)
  with t1(1,2) show "\<exists>t1. sync_vars kvs (universal_newlines content) = Inr t1 \<and>
            universal_newlines t1 = t1 \<and> sync_vars kvs t1 = Inr t1"
    by blast
next
  assume "file_value project_url \<and> file_value anon_key \<and> file_value service_key \<and>
    file_value db_password \<and> file_value org_id"
  then show "\<exists>st1. update_env_file_setup project_id project_url anon_key service_key db_password org_id st =
               (Return (), st1) \<and>
             update_env_file_setup project_id project_url anon_key service_key db_password org_id st1 =
               (Return (), st1)"
    by (intro update_env_file_setup_twice) simp_all
next
  assume "file_value project_id \<and> file_value project_url \<and> file_value anon_key \<and>
    file_value service_key \<and> file_value db_password \<and> file_value org_id"
  then show "\<exists>st1. update_env_file_create project_id project_url anon_key service_key db_password org_id st =
               (Return (), st1) \<and>
             update_env_file_create project_id project_url anon_key service_key db_password org_id st1 =
               (Return (), st1)"
    by (intro update_env_file_create_twice) simp_all
qed

theorem update_env_file_idempotent_witness:
  "(\<exists>t1. sync_vars [(''SUPABASE_URL'', ''new''), (''SUPABASE_ANON_KEY'', ''k1'')]
            (universal_newlines (''SUPABASE_URL=old'' @ [CR, LF] @ ''PORT=3000'')) = Inr t1 \<and>
         universal_newlines t1 = t1 \<and>
         sync_vars [(''SUPABASE_URL'', ''new''), (''SUPABASE_ANON_KEY'', ''k1'')] t1 = Inr t1) \<and>
   (\<exists>st1. update_env_file_setup ''abc'' ''https://abc.supabase.co'' ''k1'' ''k2'' ''pw'' ''org'' initial_state =
            (Return (), st1) \<and>
          update_env_file_setup ''abc'' ''https://abc.supabase.co'' ''k1'' ''k2'' ''pw'' ''org'' st1 =
            (Return (), st1)) \<and>
   (\<exists>st1. update_env_file_create ''abc'' ''https://abc.supabase.co'' ''k1'' ''k2'' ''pw'' ''org'' initial_state =
            (Return (), st1) \<and>
          update_env_file_create ''abc'' ''https://abc.supabase.co'' ''k1'' ''k2'' ''pw'' ''org'' st1 =
            (Return (), st1))"
proof -
  have h1: "(\<forall>kv\<in>set [(''SUPABASE_URL'', ''new''), (''SUPABASE_ANON_KEY'', ''k1'')].
              env_key (fst kv) \<and> file_value (snd kv)) \<and>
            distinct (map fst [(''SUPABASE_URL'', ''new''), (''SUPABASE_ANON_KEY'', ''k1'')])"
    by (simp add: file_value_examples env_key_def word_char_def ascii_letters_def
        ascii_lowercase_def ascii_uppercase_def digits_def)
  show ?thesis
    using update_env_file_idempotent
      [of "[(''SUPABASE_URL'', ''new''), (''SUPABASE_ANON_KEY'', ''k1'')]"
          "''SUPABASE_URL=old'' @ [CR, LF] @ ''PORT=3000''"
          "''https://abc.supabase.co''" "''k1''" "''k2''" "''pw''" "''org''" "''abc''" initial_state]
      h1 file_value_examples
    by blast
qed

text \<open>
  C1 as stated fails for a value that holds a carriage return or a line feed. With the
  organization identifier \<open>o\<close>, carriage return, \<open>g\<close> (a value without line feed or
  backslash), the first run writes the line as it is, the second run reads the carriage
  return as a line feed, replaces the first of the two lines by the whole value and
  writes a longer file. With \<open>a\<close>, line feed, \<open>b\<close> the same happens.
\<close>

theorem update_env_file_idempotent_counterexample:
  "env_value [CHR ''o'', CR, CHR ''g''] \<and>
   files (snd (update_env_file_setup ''abc'' ''u'' ''k'' ''s'' ''p'' [CHR ''o'', CR, CHR ''g'']
                 initial_state)) ''.env'' =
     Some (env_after_first [CHR ''o'', CR, CHR ''g'']) \<and>
   files (snd (update_env_file_setup ''abc'' ''u'' ''k'' ''s'' ''p'' [CHR ''o'', CR, CHR ''g'']
                 (snd (update_env_file_setup ''abc'' ''u'' ''k'' ''s'' ''p''
                         [CHR ''o'', CR, CHR ''g''] initial_state)))) ''.env'' =
     Some (env_after_first [CHR ''o'', CR, CHR ''g'', LF, CHR ''g'']) \<and>
   env_after_first [CHR ''o'', CR, CHR ''g'', LF, CHR ''g''] \<noteq>
     env_after_first [CHR ''o'', CR, CHR ''g''] \<and>
   files (snd (update_env_file_setup ''abc'' ''u'' ''k'' ''s'' ''p'' [CHR ''a'', LF, CHR ''b'']
                 initial_state)) ''.env'' =
     Some (env_after_first [CHR ''a'', LF, CHR ''b'']) \<and>
   files (snd (update_env_file_setup ''abc'' ''u'' ''k'' ''s'' ''p'' [CHR ''a'', LF, CHR ''b'']
                 (snd (update_env_file_setup ''abc'' ''u'' ''k'' ''s'' ''p''
                         [CHR ''a'', LF, CHR ''b''] initial_state)))) ''.env'' =
     Some (env_after_first [CHR ''a'', LF, CHR ''b'', LF, CHR ''b'']) \<and>
   env_after_first [CHR ''a'', LF, CHR ''b'', LF, CHR ''b''] \<noteq>
     env_after_first [CHR ''a'', LF, CHR ''b'']"
proof -
  have v: "env_value [CHR ''o'', CR, CHR ''g'']"
    by (simp add: env_value_def)
  have d: "env_after_first [CHR ''o'', CR, CHR ''g'', LF, CHR ''g''] \<noteq>
             env_after_first [CHR ''o'', CR, CHR ''g'']"
    "env_after_first [CHR ''a'', LF, CHR ''b'', LF, CHR ''b''] \<noteq>
       env_after_first [CHR ''a'', LF, CHR ''b'']"
    by (simp_all add: env_after_first_def)
  show ?thesis
    unfolding first_run_cr first_run_lf snd_conv second_run_cr second_run_lf
    using v d by (simp add: write_file_def)
qed

end
